theory Spec2Isabelle
  imports Complex_Main "HOL-Library.AList"
begin

section \<open>Data model of the Discv5 service (src/service/service.ts)\<close>

text \<open>
  The service class \<open>Discv5\<close> owns four maps and a counter; everything else it touches
  (the session service, the Kademlia routing table, the lookup objects, the message
  helpers) is imported from modules that are not part of the file under verification.
  The class state is a record that every handler takes and returns; the calls a handler
  makes to a collaborator are collected, in call order, in a list of effects.
  Calls to the debug logger are left out.
\<close>

type_synonym NodeId = string
type_synonym Multiaddr = string
type_synonym SequenceNumber = int
type_synonym RequestId = int
type_synonym Timer = nat

record ENR =
  nodeId :: NodeId
  seq :: SequenceNumber

datatype EntryStatus = Connected | Disconnected

record Entry =
  entry_value :: ENR
  entry_status :: EntryStatus

record IPingMessage =
  ping_id :: RequestId
  ping_enrSeq :: SequenceNumber

record IFindNodeMessage =
  findnode_id :: RequestId
  findnode_distance :: nat

record IPongMessage =
  pong_id :: RequestId
  pong_enrSeq :: SequenceNumber
  pong_recipientIp :: string
  pong_recipientPort :: nat

record INodesMessage =
  nodes_id :: RequestId
  nodes_total :: nat
  nodes_enrs :: "ENR list"

datatype RequestMessage = PING IPingMessage | FINDNODE IFindNodeMessage

datatype ResponseMessage = PONG IPongMessage | NODES INodesMessage

fun request_id :: "RequestMessage \<Rightarrow> RequestId" where
  "request_id (PING m) = ping_id m"
| "request_id (FINDNODE m) = findnode_id m"

fun response_id :: "ResponseMessage \<Rightarrow> RequestId" where
  "response_id (PONG m) = pong_id m"
| "response_id (NODES m) = nodes_id m"

text \<open>\<open>interface INodesResponse\<close>: the accumulator of a multi-packet NODES response.\<close>

record INodesResponse =
  count :: nat
  enrs :: "ENR list"

text \<open>
  A \<open>Lookup\<close> object as far as the service reads and writes it: the constructor
  arguments and the \<open>untrustedEnrs\<close> buffer, empty in a new lookup. Its methods belong
  to the kademlia module; a call to one of them is an effect and is not followed into
  the listeners it may fire.
\<close>

record Lookup =
  lookup_target :: NodeId
  lookup_knownClosestPeers :: "NodeId list"
  untrustedEnrs :: "ENR list"

record ILookupPeer =
  peer_nodeId :: NodeId
  peer_iteration :: nat

datatype Effect =
    SendRequest ENR RequestMessage
  | SendResponse Multiaddr NodeId ResponseMessage
  | UpdateEnr ENR
  | EmitDiscovered ENR
  | EmitEnrAdded ENR
  | LookupStart nat
  | LookupOnSuccess nat NodeId "NodeId list"
  | LookupOnFailure nat NodeId
  | ClearInterval "Timer option"

text \<open>
  The imported collaborators, as the parameters of every handler. \<open>'kb\<close> is the state
  of the \<open>KademliaRoutingTable\<close>; the \<open>kad_\<close> fields are its methods, the \<open>session_\<close>
  fields those of the \<open>SessionService\<close>, the \<open>msg_\<close> field comes from the message
  module. \<open>session_sendRequest\<close> answers \<open>Some e\<close> when the call throws an error with
  message \<open>e\<close>. A throwing \<open>sendResponse\<close> is caught and logged at every call site and
  changes nothing else, so it has no field.
\<close>

record 'kb Collaborators =
  session_enr :: ENR
  session_sendRequest :: "ENR \<Rightarrow> RequestMessage \<Rightarrow> string option"
  kad_getValue :: "'kb \<Rightarrow> NodeId \<Rightarrow> ENR option"
  kad_getWithPending :: "'kb \<Rightarrow> NodeId \<Rightarrow> Entry option"
  kad_update :: "'kb \<Rightarrow> ENR \<Rightarrow> EntryStatus \<Rightarrow> 'kb"
  kad_updateStatus :: "'kb \<Rightarrow> NodeId \<Rightarrow> EntryStatus \<Rightarrow> 'kb"
  kad_updateValue :: "'kb \<Rightarrow> ENR \<Rightarrow> 'kb"
  kad_add :: "'kb \<Rightarrow> ENR \<Rightarrow> EntryStatus \<Rightarrow> bool \<times> 'kb"
  kad_valuesOfDistance :: "'kb \<Rightarrow> nat \<Rightarrow> ENR list"
  kad_nearest :: "'kb \<Rightarrow> NodeId \<Rightarrow> nat \<Rightarrow> ENR list"
  log2Distance :: "NodeId \<Rightarrow> NodeId \<Rightarrow> nat"
  findNodeLog2Distance :: "NodeId \<Rightarrow> ILookupPeer \<Rightarrow> nat"
  msg_requestMatchesResponse :: "RequestMessage \<Rightarrow> ResponseMessage \<Rightarrow> bool"

text \<open>
  The fields of \<open>class Discv5\<close> that the handlers below read or write.
  \<open>activeLookups\<close> is an association list in insertion order, because \<open>findEnr\<close>
  iterates over it; the handlers below reach the other maps by key only. The fields
  \<open>started\<close>, \<open>pingDelay\<close>, \<open>lookupConfig\<close> and \<open>ipVotes\<close> play no part in them.
\<close>

record 'kb Discv5 =
  kbuckets :: 'kb
  activeLookups :: "(nat \<times> Lookup) list"
  activeRequests :: "RequestId \<rightharpoonup> (RequestMessage \<times> nat option)"
  activeNodesResponses :: "RequestId \<rightharpoonup> INodesResponse"
  connectedPeers :: "NodeId \<rightharpoonup> Timer"
  nextLookupId :: nat

text \<open>The constructor, given the freshly created routing table.\<close>

definition constructor :: "'kb \<Rightarrow> 'kb Discv5" where
  "constructor kb =
     \<lparr>kbuckets = kb, activeLookups = [], activeRequests = Map.empty,
      activeNodesResponses = Map.empty, connectedPeers = Map.empty, nextLookupId = 1\<rparr>"

text \<open>
  \<open>createFindNodeMessage\<close> and \<open>createNodesMessage\<close> of the message module build the
  message objects; the request id that \<open>createFindNodeMessage\<close> draws at random is an
  argument here.
\<close>

definition createFindNodeMessage :: "RequestId \<Rightarrow> nat \<Rightarrow> RequestMessage" where
  "createFindNodeMessage rid distance =
     FINDNODE \<lparr>findnode_id = rid, findnode_distance = distance\<rparr>"

definition createNodesMessage :: "RequestId \<Rightarrow> nat \<Rightarrow> ENR list \<Rightarrow> ResponseMessage" where
  "createNodesMessage rid tot es = NODES \<lparr>nodes_id = rid, nodes_total = tot, nodes_enrs = es\<rparr>"

section \<open>Sending requests\<close>

text \<open>
  \<open>sendRequest(nodeId, req, lookupId?)\<close>: without an ENR for the node in the routing
  table nothing happens; otherwise the request goes to the session service and is
  registered, unless the session service throws, which the \<open>catch\<close> swallows.
\<close>

definition sendRequest ::
  "'kb Collaborators \<Rightarrow> 'kb Discv5 \<Rightarrow> NodeId \<Rightarrow> RequestMessage \<Rightarrow> nat option
     \<Rightarrow> 'kb Discv5 \<times> Effect list" where
  "sendRequest C s nid req lookupId =
     (case kad_getValue C (kbuckets s) nid of
        None \<Rightarrow> (s, [])
      | Some dstEnr \<Rightarrow>
          (case session_sendRequest C dstEnr req of
             None \<Rightarrow>
               (s\<lparr>activeRequests := (activeRequests s)(request_id req \<mapsto> (req, lookupId))\<rparr>,
                [SendRequest dstEnr req])
           | Some e \<Rightarrow> (s, [SendRequest dstEnr req])))"

text \<open>\<open>sendLookup(lookupId, target, peer)\<close>; \<open>rid\<close> is the id of the request it creates.\<close>

definition sendLookup ::
  "'kb Collaborators \<Rightarrow> 'kb Discv5 \<Rightarrow> RequestId \<Rightarrow> nat \<Rightarrow> NodeId \<Rightarrow> ILookupPeer
     \<Rightarrow> 'kb Discv5 \<times> Effect list" where
  "sendLookup C s rid lookupId target peer =
     (let distance = findNodeLog2Distance C target peer in
      if distance = 0 then
        (case map_of (activeLookups s) lookupId of
           Some lookup \<Rightarrow> (s, [LookupOnFailure lookupId (peer_nodeId peer)])
         | None \<Rightarrow> (s, []))
      else sendRequest C s (peer_nodeId peer) (createFindNodeMessage rid distance) (Some lookupId))"

text \<open>
  \<open>findEnr(nodeId)\<close>: the routing table first, then the untrusted ENRs of the active
  lookups, lookups in insertion order and each buffer front to back.
\<close>

definition findEnr :: "'kb Collaborators \<Rightarrow> 'kb Discv5 \<Rightarrow> NodeId \<Rightarrow> ENR option" where
  "findEnr C s nid =
     (case kad_getValue C (kbuckets s) nid of
        Some enr \<Rightarrow> Some enr
      | None \<Rightarrow> find (\<lambda>enr. nodeId enr = nid) (concat (map (untrustedEnrs \<circ> snd) (activeLookups s))))"

section \<open>Matching responses to requests\<close>

text \<open>
  \<open>retrieveRequest(srcId, message)\<close>: the stored request, or nothing. The entry is
  deleted as soon as the id is known; the request is then given back when
  \<open>requestMatchesResponse\<close> answers false.
\<close>

definition retrieveRequest ::
  "'kb Collaborators \<Rightarrow> 'kb Discv5 \<Rightarrow> NodeId \<Rightarrow> ResponseMessage
     \<Rightarrow> (RequestMessage \<times> nat option) option \<times> 'kb Discv5" where
  "retrieveRequest C s srcId message =
     (case activeRequests s (response_id message) of
        None \<Rightarrow> (None, s)
      | Some activeRequest \<Rightarrow>
          (let s' = s\<lparr>activeRequests := (activeRequests s)(response_id message := None)\<rparr> in
           if msg_requestMatchesResponse C (fst activeRequest) message then (None, s')
           else (Some activeRequest, s')))"

text \<open>
  Modelled from the spec: \<open>requestMatchesResponse\<close> of the message module is not under
  src/. The specification pairs the kinds PING with PONG and FINDNODE with NODES.
\<close>

fun requestMatchesResponse :: "RequestMessage \<Rightarrow> ResponseMessage \<Rightarrow> bool" where
  "requestMatchesResponse (PING _) (PONG _) = True"
| "requestMatchesResponse (FINDNODE _) (NODES _) = True"
| "requestMatchesResponse _ _ = False"

section \<open>Discovered records\<close>

text \<open>
  The first loop of \<open>discovered\<close>: every record is announced; a record newer than the
  table's entry replaces it and goes to the session service, a record unknown to the
  table goes to the session service only.
\<close>

fun discoveredEach :: "'kb Collaborators \<Rightarrow> 'kb \<Rightarrow> ENR list \<Rightarrow> 'kb \<times> Effect list" where
  "discoveredEach C kb [] = (kb, [])"
| "discoveredEach C kb (enr # rest) =
     (let (kb1, effs1) =
            (case kad_getWithPending C kb (nodeId enr) of
               Some entry \<Rightarrow>
                 if seq (entry_value entry) < seq enr
                 then (kad_updateValue C kb enr, [UpdateEnr enr])
                 else (kb, [])
             | None \<Rightarrow> (kb, [UpdateEnr enr]));
          (kb2, effs2) = discoveredEach C kb1 rest
      in (kb2, EmitDiscovered enr # effs1 @ effs2))"

text \<open>The second loop: a record whose node id the buffer does not hold yet is pushed.\<close>

fun pushUntrusted :: "ENR list \<Rightarrow> ENR list \<Rightarrow> ENR list" where
  "pushUntrusted untrusted [] = untrusted"
| "pushUntrusted untrusted (enr # rest) =
     pushUntrusted
       (if find (\<lambda>lookupEnr. nodeId lookupEnr = nodeId enr) untrusted = None
        then untrusted @ [enr] else untrusted)
       rest"

text \<open>
  \<open>discovered(srcId, enrs, lookupId?)\<close>. The test \<open>if (lookupId)\<close> fails for
  \<open>undefined\<close> and for 0.
\<close>

definition discovered ::
  "'kb Collaborators \<Rightarrow> 'kb Discv5 \<Rightarrow> NodeId \<Rightarrow> ENR list \<Rightarrow> nat option
     \<Rightarrow> 'kb Discv5 \<times> Effect list" where
  "discovered C s srcId es lookupId =
     (let localId = nodeId (session_enr C);
          others = filter (\<lambda>enr. nodeId enr \<noteq> localId) es;
          (kb, effs) = discoveredEach C (kbuckets s) others;
          s1 = s\<lparr>kbuckets := kb\<rparr>
      in case lookupId of
           None \<Rightarrow> (s1, effs)
         | Some l \<Rightarrow>
             if l = 0 then (s1, effs)
             else (case map_of (activeLookups s1) l of
                     None \<Rightarrow> (s1, effs)
                   | Some lookup \<Rightarrow>
                       (s1\<lparr>activeLookups :=
                             AList.update l
                               (lookup\<lparr>untrustedEnrs := pushUntrusted (untrustedEnrs lookup) others\<rparr>)
                               (activeLookups s1)\<rparr>,
                        effs @ [LookupOnSuccess l srcId (map nodeId others)])))"

text \<open>\<open>connectionUpdated(nodeId, enr, newStatus)\<close>.\<close>

definition connectionUpdated ::
  "'kb Collaborators \<Rightarrow> 'kb Discv5 \<Rightarrow> NodeId \<Rightarrow> ENR option \<Rightarrow> EntryStatus
     \<Rightarrow> 'kb Discv5 \<times> Effect list" where
  "connectionUpdated C s nid enr newStatus =
     (case kad_getWithPending C (kbuckets s) nid of
        Some entry \<Rightarrow>
          (case enr of
             Some e \<Rightarrow> (s\<lparr>kbuckets := kad_update C (kbuckets s) e newStatus\<rparr>, [])
           | None \<Rightarrow> (s\<lparr>kbuckets := kad_updateStatus C (kbuckets s) nid newStatus\<rparr>, []))
      | None \<Rightarrow>
          (case enr of
             Some e \<Rightarrow>
               if newStatus = Connected
               then (let (inserted, kb) = kad_add C (kbuckets s) e newStatus
                     in (s\<lparr>kbuckets := kb\<rparr>, if inserted then [EmitEnrAdded e] else []))
               else (s, [])
           | None \<Rightarrow> (s, [])))"

section \<open>Answering FINDNODE\<close>

text \<open>
  Modelled from the spec: the constants \<open>MAX_PACKET_SIZE\<close> (packet module) and
  \<open>MAX_RECORD_SIZE\<close> (enr module) are not under src/; the specification gives 1280
  and 300 bytes.
\<close>

definition MAX_PACKET_SIZE :: nat where
  "MAX_PACKET_SIZE = 1280"

definition MAX_RECORD_SIZE :: nat where
  "MAX_RECORD_SIZE = 300"

text \<open>\<open>Math.floor((MAX_PACKET_SIZE - 92) / MAX_RECORD_SIZE)\<close>\<close>

definition nodesPerPacket :: nat where
  "nodesPerPacket = (MAX_PACKET_SIZE - 92) div MAX_RECORD_SIZE"

text \<open>
  \<open>Math.ceil(nodes.length / nodesPerPacket)\<close>, on natural numbers (the quotient of the
  source is a double, exact far beyond any table size).
\<close>

definition nodesTotal :: "nat \<Rightarrow> nat" where
  "nodesTotal n = (n + nodesPerPacket - 1) div nodesPerPacket"

text \<open>
  The loop \<open>for (let i = 0; i < nodes.length; i += nodesPerPacket)\<close>, from index \<open>i\<close> on:
  one \<open>sendResponse\<close> per slice \<open>nodes.slice(i, i + nodesPerPacket)\<close>.
\<close>

function sendNodes ::
  "Multiaddr \<Rightarrow> NodeId \<Rightarrow> RequestId \<Rightarrow> nat \<Rightarrow> ENR list \<Rightarrow> nat \<Rightarrow> Effect list" where
  "sendNodes src srcId rid tot nodes i =
     (if i < length nodes
      then SendResponse src srcId
             (createNodesMessage rid tot (take nodesPerPacket (drop i nodes)))
           # sendNodes src srcId rid tot nodes (i + nodesPerPacket)
      else [])"
  by pat_completeness auto
termination
  by (relation "measure (\<lambda>(src, srcId, rid, tot, nodes, i). length nodes - i)")
     (auto simp: nodesPerPacket_def MAX_PACKET_SIZE_def MAX_RECORD_SIZE_def)

declare sendNodes.simps [simp del]

text \<open>
  \<open>onFindNode(srcId, src, message)\<close>. The branch for distance 0 has no \<open>return\<close>:
  control continues with the table query.
\<close>

definition onFindNode ::
  "'kb Collaborators \<Rightarrow> 'kb Discv5 \<Rightarrow> NodeId \<Rightarrow> Multiaddr \<Rightarrow> IFindNodeMessage
     \<Rightarrow> 'kb Discv5 \<times> Effect list" where
  "onFindNode C s srcId src message =
     (let rid = findnode_id message;
          distance = findnode_distance message;
          effs0 = (if distance = 0
                   then [SendResponse src srcId (createNodesMessage rid 1 [session_enr C])]
                   else []);
          nodes = kad_valuesOfDistance C (kbuckets s) distance
      in if length nodes = 0
         then (s, effs0 @ [SendResponse src srcId (createNodesMessage rid 0 nodes)])
         else (s, effs0 @ sendNodes src srcId rid (nodesTotal (length nodes)) nodes 0))"

section \<open>Receiving NODES\<close>

text \<open>
  The request is cast to \<open>IFindNodeMessage\<close>; a PING request has no \<open>distance\<close>
  property, and \<open>===\<close> against \<open>undefined\<close> is false for every number.
\<close>

fun distanceRequested :: "RequestMessage \<Rightarrow> nat option" where
  "distanceRequested (FINDNODE m) = Some (findnode_distance m)"
| "distanceRequested (PING m) = None"

text \<open>\<open>onNodes(srcId, src, message)\<close>.\<close>

definition onNodes ::
  "'kb Collaborators \<Rightarrow> 'kb Discv5 \<Rightarrow> NodeId \<Rightarrow> Multiaddr \<Rightarrow> INodesMessage
     \<Rightarrow> 'kb Discv5 \<times> Effect list" where
  "onNodes C s srcId src message =
     (case retrieveRequest C s srcId (NODES message) of
        (None, s1) \<Rightarrow> (s1, [])
      | (Some activeRequest, s1) \<Rightarrow>
          (let (request, lookupId) = activeRequest;
               rid = nodes_id message;
               filtered = filter (\<lambda>enr. Some (log2Distance C (nodeId enr) (nodeId (session_enr C)))
                                         = distanceRequested request) (nodes_enrs message)
           in if nodes_total message > 1
              then (let currentResponse =
                          (case activeNodesResponses s1 rid of
                             Some r \<Rightarrow> r
                           | None \<Rightarrow> \<lparr>count = 1, enrs = []\<rparr>);
                        s2 = s1\<lparr>activeNodesResponses := (activeNodesResponses s1)(rid := None)\<rparr>
                    in if count currentResponse < 5 \<and> count currentResponse < nodes_total message
                       then (s2\<lparr>activeRequests := (activeRequests s2)(rid \<mapsto> activeRequest),
                                activeNodesResponses :=
                                  (activeNodesResponses s2)
                                    (rid \<mapsto> currentResponse\<lparr>count := count currentResponse + 1\<rparr>)\<rparr>,
                             [])
                       else discovered C
                              (s2\<lparr>activeNodesResponses := (activeNodesResponses s2)(rid := None)\<rparr>)
                              srcId (filtered @ enrs currentResponse) lookupId)
              else discovered C
                     (s1\<lparr>activeNodesResponses := (activeNodesResponses s1)(rid := None)\<rparr>)
                     srcId filtered lookupId))"

section \<open>Failed requests\<close>

text \<open>
  \<open>onRequestFailed(srcId, rpcId)\<close>. \<open>activeLookups.get(undefined)\<close> finds nothing.
  \<open>clearInterval\<close> receives whatever \<open>connectedPeers.get(srcId)\<close> holds.
\<close>

definition onRequestFailed ::
  "'kb Collaborators \<Rightarrow> 'kb Discv5 \<Rightarrow> NodeId \<Rightarrow> RequestId \<Rightarrow> 'kb Discv5 \<times> Effect list" where
  "onRequestFailed C s srcId rpcId =
     (let (s1, effs1) =
            (case activeRequests s rpcId of
               None \<Rightarrow> (s, [])
             | Some (request, lookupId) \<Rightarrow>
                 (case request of
                    FINDNODE m \<Rightarrow>
                      (case activeNodesResponses s rpcId of
                         Some nodesResponse \<Rightarrow>
                           discovered C
                             (s\<lparr>activeNodesResponses := (activeNodesResponses s)(rpcId := None)\<rparr>)
                             srcId (enrs nodesResponse) lookupId
                       | None \<Rightarrow>
                           (case lookupId of
                              None \<Rightarrow> (s, [])
                            | Some l \<Rightarrow>
                                (case map_of (activeLookups s) l of
                                   Some lookup \<Rightarrow> (s, [LookupOnFailure l srcId])
                                 | None \<Rightarrow> (s, []))))
                  | PING m \<Rightarrow> (s, [])));
          (s2, effs2) = connectionUpdated C s1 srcId None Disconnected
      in (s2\<lparr>connectedPeers := (connectedPeers s2)(srcId := None)\<rparr>,
          effs1 @ effs2 @ [ClearInterval (connectedPeers s2 srcId)]))"

section \<open>Starting lookups\<close>

text \<open>
  \<open>findNode(target)\<close> up to \<open>lookup.start()\<close>: the id handed out, the new state, the
  effects. The \<open>finished\<close> listener deletes the lookup again.
\<close>

definition findNode ::
  "'kb Collaborators \<Rightarrow> 'kb Discv5 \<Rightarrow> NodeId \<Rightarrow> nat \<times> 'kb Discv5 \<times> Effect list" where
  "findNode C s target =
     (let lookupId = nextLookupId s;
          s1 = s\<lparr>nextLookupId := (if nextLookupId s \<ge> 2 ^ 32 then 1 else nextLookupId s + 1)\<rparr>;
          knownClosestPeers = map nodeId (kad_nearest C (kbuckets s1) target 16);
          lookup = \<lparr>lookup_target = target, lookup_knownClosestPeers = knownClosestPeers,
                    untrustedEnrs = []\<rparr>
      in (lookupId, s1\<lparr>activeLookups := AList.update lookupId lookup (activeLookups s1)\<rparr>,
          [LookupStart lookupId]))"

definition onLookupFinished :: "'kb Discv5 \<Rightarrow> nat \<Rightarrow> 'kb Discv5" where
  "onLookupFinished s lookupId = s\<lparr>activeLookups := AList.delete lookupId (activeLookups s)\<rparr>"

section \<open>Runs of NODES packets\<close>

text \<open>
  The count that \<open>onNodes\<close> reads for a request id:
  \<open>(this.activeNodesResponses.get(id) || { count: 1, enrs: [] }).count\<close>.
\<close>

definition packetCount :: "'kb Discv5 \<Rightarrow> RequestId \<Rightarrow> nat" where
  "packetCount s rid = (case activeNodesResponses s rid of Some r \<Rightarrow> count r | None \<Rightarrow> 1)"

text \<open>
  The handler run on a list of NODES messages in arrival order, one message to
  completion before the next: the final state and all effects.
\<close>

fun onNodesAll ::
  "'kb Collaborators \<Rightarrow> 'kb Discv5 \<Rightarrow> NodeId \<Rightarrow> Multiaddr \<Rightarrow> INodesMessage list
     \<Rightarrow> 'kb Discv5 \<times> Effect list" where
  "onNodesAll C s srcId src [] = (s, [])"
| "onNodesAll C s srcId src (message # messages) =
     (let (s1, effs1) = onNodes C s srcId src message;
          (s2, effs2) = onNodesAll C s1 srcId src messages
      in (s2, effs1 @ effs2))"

text \<open>
  How many messages of such a run are accepted, that is, get past \<open>retrieveRequest\<close>.
\<close>

fun acceptedNodes ::
  "'kb Collaborators \<Rightarrow> 'kb Discv5 \<Rightarrow> NodeId \<Rightarrow> Multiaddr \<Rightarrow> INodesMessage list \<Rightarrow> nat" where
  "acceptedNodes C s srcId src [] = 0"
| "acceptedNodes C s srcId src (message # messages) =
     (if fst (retrieveRequest C s srcId (NODES message)) \<noteq> None then 1 else 0)
     + acceptedNodes C (fst (onNodes C s srcId src message)) srcId src messages"

section \<open>Runs of events\<close>

text \<open>
  What reaches the service between two moments of a run: a call of \<open>findNode\<close>, the
  \<open>finished\<close> event of a lookup, a \<open>peer\<close> event of a lookup (answered by \<open>sendLookup\<close>),
  an incoming FINDNODE or NODES message, a \<open>requestFailed\<close> event of the session
  service. These are all the places that write \<open>nextLookupId\<close> or \<open>activeLookups\<close> or
  call \<open>discovered\<close>, apart from the constructor and \<open>stop\<close>, which ends the run; the
  handlers left out (\<open>onPing\<close>, \<open>onPong\<close>, \<open>onEstablished\<close>, \<open>onWhoAreYouRequest\<close>,
  \<open>addEnr\<close>, the ping timer and the two table listeners) touch neither field.
\<close>

datatype Event =
    CallFindNode NodeId
  | LookupFinished nat
  | LookupPeer RequestId nat NodeId ILookupPeer
  | MessageFindNode NodeId Multiaddr IFindNodeMessage
  | MessageNodes NodeId Multiaddr INodesMessage
  | RequestFailed NodeId RequestId

text \<open>
  One event handled to completion: the lookup ids handed out (one for a call of
  \<open>findNode\<close>, none otherwise) and the new state.
\<close>

fun handle :: "'kb Collaborators \<Rightarrow> 'kb Discv5 \<Rightarrow> Event \<Rightarrow> nat list \<times> 'kb Discv5" where
  "handle C s (CallFindNode target) = ([fst (findNode C s target)], fst (snd (findNode C s target)))"
| "handle C s (LookupFinished lookupId) = ([], onLookupFinished s lookupId)"
| "handle C s (LookupPeer rid lookupId target peer) =
     ([], fst (sendLookup C s rid lookupId target peer))"
| "handle C s (MessageFindNode srcId src message) = ([], fst (onFindNode C s srcId src message))"
| "handle C s (MessageNodes srcId src message) = ([], fst (onNodes C s srcId src message))"
| "handle C s (RequestFailed srcId rpcId) = ([], fst (onRequestFailed C s srcId rpcId))"

text \<open>A list of events handled in order: all ids handed out, oldest first, and the state.\<close>

fun handleAll :: "'kb Collaborators \<Rightarrow> 'kb Discv5 \<Rightarrow> Event list \<Rightarrow> nat list \<times> 'kb Discv5" where
  "handleAll C s [] = ([], s)"
| "handleAll C s (ev # evs) =
     (let (ids1, s1) = handle C s ev;
          (ids2, s2) = handleAll C s1 evs
      in (ids1 @ ids2, s2))"

section \<open>Collaborators and states of the concrete scenarios\<close>

text \<open>
  Modelled from the spec: \<open>KademliaRoutingTable\<close>, \<open>SessionService\<close>, \<open>log2Distance\<close>
  and \<open>findNodeLog2Distance\<close> are not under src/. The general theorems below hold for
  every value of \<open>Collaborators\<close>. The concrete scenarios run against a table that is
  the list of its entries in insertion order, with the operations of section 4.1 of the
  specification but without bucket capacity and pending slot (\<open>add\<close> always inserts,
  \<open>nearest\<close> answers the first \<open>n\<close> records in table order). The distance function,
  the outcome of \<open>sendRequest\<close> and the kind check are arguments.
\<close>

definition listTable ::
  "ENR \<Rightarrow> (NodeId \<Rightarrow> NodeId \<Rightarrow> nat) \<Rightarrow> (ENR \<Rightarrow> RequestMessage \<Rightarrow> string option)
     \<Rightarrow> (RequestMessage \<Rightarrow> ResponseMessage \<Rightarrow> bool) \<Rightarrow> Entry list Collaborators" where
  "listTable localRecord distanceOf sendReq matches =
     \<lparr>session_enr = localRecord,
      session_sendRequest = sendReq,
      kad_getValue = (\<lambda>kb nid. map_option entry_value (find (\<lambda>e. nodeId (entry_value e) = nid) kb)),
      kad_getWithPending = (\<lambda>kb nid. find (\<lambda>e. nodeId (entry_value e) = nid) kb),
      kad_update = (\<lambda>kb enr st. map (\<lambda>e. if nodeId (entry_value e) = nodeId enr
                                          then \<lparr>entry_value = enr, entry_status = st\<rparr> else e) kb),
      kad_updateStatus = (\<lambda>kb nid st. map (\<lambda>e. if nodeId (entry_value e) = nid
                                          then e\<lparr>entry_status := st\<rparr> else e) kb),
      kad_updateValue = (\<lambda>kb enr. map (\<lambda>e. if nodeId (entry_value e) = nodeId enr
                                          then e\<lparr>entry_value := enr\<rparr> else e) kb),
      kad_add = (\<lambda>kb enr st. (True, kb @ [\<lparr>entry_value = enr, entry_status = st\<rparr>])),
      kad_valuesOfDistance = (\<lambda>kb d. map entry_value
                                (filter (\<lambda>e. distanceOf (nodeId localRecord) (nodeId (entry_value e)) = d) kb)),
      kad_nearest = (\<lambda>kb target n. take n (map entry_value kb)),
      log2Distance = distanceOf,
      findNodeLog2Distance = (\<lambda>target peer. distanceOf target (peer_nodeId peer)),
      msg_requestMatchesResponse = matches\<rparr>"

definition localEnr :: ENR where
  "localEnr = \<lparr>nodeId = ''local'', seq = 1\<rparr>"

definition enrOf :: "NodeId \<Rightarrow> ENR" where
  "enrOf nid = \<lparr>nodeId = nid, seq = 1\<rparr>"

text \<open>A distance function that puts every two different nodes into shell 200.\<close>

definition shell200 :: "NodeId \<Rightarrow> NodeId \<Rightarrow> nat" where
  "shell200 a b = (if a = b then 0 else 200)"

text \<open>
  The session service accepts every request, and the kind check is the one of the
  specification.
\<close>

definition plainCollaborators :: "Entry list Collaborators" where
  "plainCollaborators = listTable localEnr shell200 (\<lambda>enr req. None) requestMatchesResponse"

text \<open>The session service throws on every request.\<close>

definition unreachableCollaborators :: "Entry list Collaborators" where
  "unreachableCollaborators =
     listTable localEnr shell200 (\<lambda>enr req. Some ''unreachable'') requestMatchesResponse"

text \<open>A state in which \<open>req\<close> is outstanding.\<close>

definition withRequest :: "'kb Discv5 \<Rightarrow> RequestMessage \<Rightarrow> nat option \<Rightarrow> 'kb Discv5" where
  "withRequest s req lookupId =
     s\<lparr>activeRequests := (activeRequests s)(request_id req \<mapsto> (req, lookupId))\<rparr>"

text \<open>Peer \<open>a\<close> is in the table, connected, with ping timer 1 and an outstanding PING 5.\<close>

definition pingedPeer :: "Entry list Discv5" where
  "pingedPeer =
     (withRequest (constructor [\<lparr>entry_value = enrOf ''a'', entry_status = Connected\<rparr>])
        (PING \<lparr>ping_id = 5, ping_enrSeq = 1\<rparr>) None)\<lparr>connectedPeers := [''a'' \<mapsto> 1]\<rparr>"

text \<open>
  An empty table and one lookup, id 1, that has learnt the record of \<open>b\<close> from a NODES
  response.
\<close>

definition probingState :: "Entry list Discv5" where
  "probingState =
     (constructor [])\<lparr>activeLookups :=
        [(1, \<lparr>lookup_target = ''t'', lookup_knownClosestPeers = [], untrustedEnrs = [enrOf ''b'']\<rparr>)]\<rparr>"

text \<open>Four connected peers in the table, all in shell 200 of the local node.\<close>

definition fourAtDistance200 :: "Entry list Discv5" where
  "fourAtDistance200 =
     constructor (map (\<lambda>nid. \<lparr>entry_value = enrOf nid, entry_status = Connected\<rparr>)
                    [''a'', ''b'', ''c'', ''d''])"

text \<open>
  The kind check answers true when the kinds differ, so that \<open>retrieveRequest\<close> gives
  back the request of a matching pair.
\<close>

definition kindsDifferCollaborators :: "Entry list Collaborators" where
  "kindsDifferCollaborators =
     listTable localEnr shell200 (\<lambda>enr req. None) (\<lambda>req res. \<not> requestMatchesResponse req res)"

text \<open>FINDNODE 11 for distance 200 is outstanding; the table is empty.\<close>

definition findNodeOutstanding :: "Entry list Discv5" where
  "findNodeOutstanding = withRequest (constructor []) (createFindNodeMessage 11 200) None"

text \<open>The three NODES packets of a response that declares total 3.\<close>

definition threePackets :: "INodesMessage list" where
  "threePackets =
     [\<lparr>nodes_id = 11, nodes_total = 3, nodes_enrs = [enrOf ''a'']\<rparr>,
      \<lparr>nodes_id = 11, nodes_total = 3, nodes_enrs = [enrOf ''b'', enrOf ''c'']\<rparr>,
      \<lparr>nodes_id = 11, nodes_total = 3, nodes_enrs = [enrOf ''d'']\<rparr>]"

text \<open>PING 11 is outstanding; the table is empty.\<close>

definition pingOutstanding :: "Entry list Discv5" where
  "pingOutstanding = withRequest (constructor []) (PING \<lparr>ping_id = 11, ping_enrSeq = 1\<rparr>) None"

text \<open>One NODES packet of a response that declares total 8.\<close>

definition packetOf8 :: INodesMessage where
  "packetOf8 = \<lparr>nodes_id = 11, nodes_total = 8, nodes_enrs = [enrOf ''a'']\<rparr>"

text \<open>One NODES packet of a response that declares total 2.\<close>

definition packetOf2 :: INodesMessage where
  "packetOf2 = \<lparr>nodes_id = 11, nodes_total = 2, nodes_enrs = [enrOf ''a'']\<rparr>"

text \<open>\<open>2\<^sup>3\<^sup>2\<close> calls of \<open>findNode\<close> in a row, the first for target \<open>t\<close>.\<close>

definition wrappingRun :: "Event list" where
  "wrappingRun = map CallFindNode (''t'' # replicate (2 ^ 32 - 1) ''u'')"

text \<open>Three calls of \<open>findNode\<close> with a FINDNODE message and the end of lookup 1 in between.\<close>

definition mixedRun :: "Event list" where
  "mixedRun =
     [CallFindNode ''x'',
      MessageFindNode ''p'' ''addr'' \<lparr>findnode_id = 7, findnode_distance = 5\<rparr>,
      CallFindNode ''y'',
      LookupFinished 1,
      CallFindNode ''z'']"

section \<open>Frame properties of the helpers\<close>

lemma discovered_activeRequests [simp]:
  "activeRequests (fst (discovered C s srcId es l)) = activeRequests s"
  by (simp add: discovered_def Let_def split: prod.splits option.splits)

lemma discovered_activeNodesResponses [simp]:
  "activeNodesResponses (fst (discovered C s srcId es l)) = activeNodesResponses s"
  by (simp add: discovered_def Let_def split: prod.splits option.splits)

lemma discovered_connectedPeers [simp]:
  "connectedPeers (fst (discovered C s srcId es l)) = connectedPeers s"
  by (simp add: discovered_def Let_def split: prod.splits option.splits)

lemma connectionUpdated_activeRequests [simp]:
  "activeRequests (fst (connectionUpdated C s nid enr st)) = activeRequests s"
  by (simp add: connectionUpdated_def Let_def split: prod.splits option.splits)

lemma connectionUpdated_connectedPeers [simp]:
  "connectedPeers (fst (connectionUpdated C s nid enr st)) = connectedPeers s"
  by (simp add: connectionUpdated_def Let_def split: prod.splits option.splits)

lemma retrieveRequest_accepts_iff:
  "fst (retrieveRequest C s srcId message) = Some r \<longleftrightarrow>
     activeRequests s (response_id message) = Some r
     \<and> \<not> msg_requestMatchesResponse C (fst r) message"
  by (auto simp add: retrieveRequest_def Let_def split: option.splits)

lemma retrieveRequest_state:
  "snd (retrieveRequest C s srcId message) =
     s\<lparr>activeRequests := (activeRequests s)(response_id message := None)\<rparr>"
  by (simp add: retrieveRequest_def Let_def fun_upd_idem split: option.splits)

lemma nodesPerPacket_eq: "nodesPerPacket = 3"
  by (simp add: nodesPerPacket_def MAX_PACKET_SIZE_def MAX_RECORD_SIZE_def)

section \<open>Sending requests: failures and unknown nodes\<close>

text \<open>
  C9. When the routing table knows the node and the session service's \<open>sendRequest\<close>
  throws, \<open>sendRequest\<close> of the service returns normally with the state it was called
  in: nothing is recorded in \<open>activeRequests\<close>. The only effect is the attempted call.
\<close>

theorem sendRequest_throw_swallowed:
  assumes "kad_getValue C (kbuckets s) nid = Some dstEnr"
    and "session_sendRequest C dstEnr req = Some e"
  shows "sendRequest C s nid req lookupId = (s, [SendRequest dstEnr req])"
  using assms by (simp add: sendRequest_def)

theorem sendRequest_throw_swallowed_witness:
  "kad_getValue unreachableCollaborators (kbuckets pingedPeer) ''a'' = Some (enrOf ''a'')
   \<and> session_sendRequest unreachableCollaborators (enrOf ''a'')
        (PING \<lparr>ping_id = 6, ping_enrSeq = 1\<rparr>) = Some ''unreachable''
   \<and> sendRequest unreachableCollaborators pingedPeer ''a'' (PING \<lparr>ping_id = 6, ping_enrSeq = 1\<rparr>) None
       = (pingedPeer, [SendRequest (enrOf ''a'') (PING \<lparr>ping_id = 6, ping_enrSeq = 1\<rparr>)])"
proof -
  have known: "kad_getValue unreachableCollaborators (kbuckets pingedPeer) ''a'' = Some (enrOf ''a'')"
    by (simp add: unreachableCollaborators_def listTable_def pingedPeer_def withRequest_def
          constructor_def enrOf_def)
  have throws: "session_sendRequest unreachableCollaborators (enrOf ''a'')
                  (PING \<lparr>ping_id = 6, ping_enrSeq = 1\<rparr>) = Some ''unreachable''"
    by (simp add: unreachableCollaborators_def listTable_def)
  from sendRequest_throw_swallowed [OF known throws] known throws show ?thesis
    by simp
qed

text \<open>
  C10. When the routing table has no ENR for the node, \<open>sendRequest\<close> changes nothing
  and calls no collaborator. A lookup probe towards such a peer is therefore never
  handed to the session service and never registered, also when \<open>findEnr\<close> would find
  the peer's record in a lookup's \<open>untrustedEnrs\<close>; the lookup hears of a failure only in
  the zero-distance branch of \<open>sendLookup\<close>.
\<close>

theorem sendRequest_without_enr_is_noop:
  assumes "kad_getValue C (kbuckets s) (peer_nodeId peer) = None"
  shows "sendRequest C s (peer_nodeId peer) req lookupId = (s, [])
       \<and> sendLookup C s rid l target peer =
           (s, if findNodeLog2Distance C target peer = 0 \<and> map_of (activeLookups s) l \<noteq> None
               then [LookupOnFailure l (peer_nodeId peer)] else [])"
  using assms by (auto simp add: sendRequest_def sendLookup_def Let_def split: option.splits)

theorem sendRequest_without_enr_is_noop_witness:
  "kad_getValue plainCollaborators (kbuckets probingState)
       (peer_nodeId \<lparr>peer_nodeId = ''b'', peer_iteration = 1\<rparr>) = None
   \<and> findEnr plainCollaborators probingState ''b'' = Some (enrOf ''b'')
   \<and> sendRequest plainCollaborators probingState ''b'' (createFindNodeMessage 42 200) (Some 1)
       = (probingState, [])
   \<and> sendLookup plainCollaborators probingState 42 1 ''t'' \<lparr>peer_nodeId = ''b'', peer_iteration = 1\<rparr>
       = (probingState, [])"
proof -
  let ?peer = "\<lparr>peer_nodeId = ''b'', peer_iteration = 1\<rparr>"
  have unknown: "kad_getValue plainCollaborators (kbuckets probingState) (peer_nodeId ?peer) = None"
    by (simp add: plainCollaborators_def listTable_def probingState_def constructor_def)
  have buffered: "findEnr plainCollaborators probingState ''b'' = Some (enrOf ''b'')"
    by (simp add: findEnr_def plainCollaborators_def listTable_def probingState_def
          constructor_def enrOf_def)
  have far: "findNodeLog2Distance plainCollaborators ''t'' ?peer \<noteq> 0"
    by (simp add: plainCollaborators_def listTable_def shell200_def)
  from sendRequest_without_enr_is_noop
         [OF unknown, of "createFindNodeMessage 42 200" "Some 1" 42 1 "''t''"]
       unknown buffered far
  show ?thesis by simp
qed

section \<open>Matching responses to requests: the kind check\<close>

text \<open>
  C5. The claim is that a response is accepted exactly when its id is registered and the
  kinds of request and response agree. The code returns the request when
  \<open>requestMatchesResponse\<close> is false: with an outstanding FINDNODE 11, the NODES response
  11 is refused, and with an outstanding PING 11 the same NODES response is accepted.
\<close>

theorem retrieveRequest_check_inverted:
  "fst (retrieveRequest plainCollaborators
          (withRequest (constructor []) (createFindNodeMessage 11 200) None) ''q''
          (createNodesMessage 11 1 [])) = None
   \<and> fst (retrieveRequest plainCollaborators
          (withRequest (constructor []) (PING \<lparr>ping_id = 11, ping_enrSeq = 1\<rparr>) None) ''q''
          (createNodesMessage 11 1 []))
       = Some (PING \<lparr>ping_id = 11, ping_enrSeq = 1\<rparr>, None)"
  by (simp add: retrieveRequest_def plainCollaborators_def listTable_def constructor_def
        withRequest_def createFindNodeMessage_def createNodesMessage_def)

section \<open>Failed requests\<close>

lemma onRequestFailed_activeRequests:
  "activeRequests (fst (onRequestFailed C s srcId rpcId)) = activeRequests s"
proof -
  define first where "first =
    (case activeRequests s rpcId of
       None \<Rightarrow> (s, [])
     | Some (request, lookupId) \<Rightarrow>
         (case request of
            FINDNODE m \<Rightarrow>
              (case activeNodesResponses s rpcId of
                 Some nodesResponse \<Rightarrow>
                   discovered C
                     (s\<lparr>activeNodesResponses := (activeNodesResponses s)(rpcId := None)\<rparr>)
                     srcId (enrs nodesResponse) lookupId
               | None \<Rightarrow>
                   (case lookupId of
                      None \<Rightarrow> (s, [])
                    | Some l \<Rightarrow>
                        (case map_of (activeLookups s) l of
                           Some lookup \<Rightarrow> (s, [LookupOnFailure l srcId])
                         | None \<Rightarrow> (s, []))))
          | PING m \<Rightarrow> (s, [])))"
  have "activeRequests (fst first) = activeRequests s"
    unfolding first_def by (simp split: option.splits RequestMessage.splits prod.splits)
  moreover have "fst (onRequestFailed C s srcId rpcId) =
      (fst (connectionUpdated C (fst first) srcId None Disconnected))
        \<lparr>connectedPeers :=
           (connectedPeers (fst (connectionUpdated C (fst first) srcId None Disconnected)))
             (srcId := None)\<rparr>"
    unfolding onRequestFailed_def first_def [symmetric]
    by (simp add: Let_def case_prod_beta)
  ultimately show ?thesis by simp
qed

text \<open>
  C2. The claim is that \<open>onRequestFailed\<close> removes the failed request from
  \<open>activeRequests\<close>. The handler reads the entry and never deletes it: after the PING 5
  to the connected peer \<open>a\<close> has failed, the peer is marked Disconnected, its timer is
  cleared, it is gone from \<open>connectedPeers\<close>, and request 5 is still registered.
\<close>

theorem onRequestFailed_keeps_entry:
  "activeRequests (fst (onRequestFailed plainCollaborators pingedPeer ''a'' 5)) 5
     = Some (PING \<lparr>ping_id = 5, ping_enrSeq = 1\<rparr>, None)
   \<and> kbuckets (fst (onRequestFailed plainCollaborators pingedPeer ''a'' 5))
       = [\<lparr>entry_value = enrOf ''a'', entry_status = Disconnected\<rparr>]
   \<and> connectedPeers (fst (onRequestFailed plainCollaborators pingedPeer ''a'' 5)) ''a'' = None
   \<and> snd (onRequestFailed plainCollaborators pingedPeer ''a'' 5) = [ClearInterval (Some 1)]"
  by (simp add: onRequestFailed_def connectionUpdated_def plainCollaborators_def listTable_def
        pingedPeer_def withRequest_def constructor_def enrOf_def)

section \<open>Answering FINDNODE\<close>

text \<open>
  C3. The claim is that a FINDNODE with distance 0 is answered by exactly one NODES
  response, carrying the local ENR. The branch for distance 0 does not return, so the
  handler goes on to query the table for distance 0 and sends again: with an empty
  table a second, empty NODES response with total 0 follows the first.
\<close>

theorem onFindNode_distance0_falls_through:
  "onFindNode plainCollaborators (constructor []) ''p'' ''addr''
       \<lparr>findnode_id = 7, findnode_distance = 0\<rparr>
     = (constructor [],
        [SendResponse ''addr'' ''p'' (createNodesMessage 7 1 [localEnr]),
         SendResponse ''addr'' ''p'' (createNodesMessage 7 0 [])])"
  by (simp add: onFindNode_def plainCollaborators_def listTable_def constructor_def)

text \<open>Whatever the table answers for distance 0, at least two responses are sent.\<close>

lemma onFindNode_distance0_sends:
  "2 \<le> length (snd (onFindNode C s srcId src \<lparr>findnode_id = rid, findnode_distance = 0\<rparr>))"
  by (simp add: onFindNode_def Let_def sendNodes.simps [of _ _ _ _ _ 0])

text \<open>
  C4, as stated: with no record at the requested distance the single NODES response
  would declare total 1. At distance 5 of an empty table the response sent is not that
  message.
\<close>

theorem onFindNode_empty_total_counterexample:
  "kad_valuesOfDistance plainCollaborators (kbuckets (constructor [])) 5 = []
   \<and> snd (onFindNode plainCollaborators (constructor []) ''p'' ''addr''
            \<lparr>findnode_id = 9, findnode_distance = 5\<rparr>)
       \<noteq> [SendResponse ''addr'' ''p'' (createNodesMessage 9 1 [])]"
  by (simp add: onFindNode_def plainCollaborators_def listTable_def constructor_def
        createNodesMessage_def)

text \<open>
  C4, amended: for a distance greater than 0 at which the table holds no record, the
  handler sends exactly one NODES response, with the request's id, total 0 and an empty
  ENR list, and leaves the state as it was.
\<close>

theorem onFindNode_empty_total0:
  assumes "findnode_distance message \<noteq> 0"
    and "kad_valuesOfDistance C (kbuckets s) (findnode_distance message) = []"
  shows "onFindNode C s srcId src message
           = (s, [SendResponse src srcId (createNodesMessage (findnode_id message) 0 [])])"
  using assms by (simp add: onFindNode_def)

theorem onFindNode_empty_total0_witness:
  "findnode_distance \<lparr>findnode_id = 9, findnode_distance = 5\<rparr> \<noteq> 0
   \<and> kad_valuesOfDistance plainCollaborators (kbuckets (constructor []))
        (findnode_distance \<lparr>findnode_id = 9, findnode_distance = 5\<rparr>) = []
   \<and> onFindNode plainCollaborators (constructor []) ''p'' ''addr''
         \<lparr>findnode_id = 9, findnode_distance = 5\<rparr>
       = (constructor [], [SendResponse ''addr'' ''p'' (createNodesMessage 9 0 [])])"
proof -
  let ?m = "\<lparr>findnode_id = 9, findnode_distance = 5\<rparr>"
  have far: "findnode_distance ?m \<noteq> 0" by simp
  have none: "kad_valuesOfDistance plainCollaborators (kbuckets (constructor []))
                (findnode_distance ?m) = []"
    by (simp add: plainCollaborators_def listTable_def constructor_def)
  from onFindNode_empty_total0 [OF far none, of "''p''" "''addr''"] far none
  show ?thesis by simp
qed

lemma nodesTotal_eq: "nodesTotal n = (n + 2) div 3"
  by (simp add: nodesTotal_def nodesPerPacket_eq)

lemma nodesTotal_ceiling: "int (nodesTotal n) = \<lceil>real n / real nodesPerPacket\<rceil>"
proof -
  have "\<lceil>real n / 3\<rceil> = int ((n + 2) div 3)"
    by (rule ceiling_unique) (auto simp: field_simps of_nat_div)
  then show ?thesis by (simp add: nodesTotal_eq nodesPerPacket_eq)
qed

lemma sendNodes_from:
  "sendNodes src srcId rid tot nodes (3 * k) =
     map (\<lambda>j. SendResponse src srcId (createNodesMessage rid tot (take 3 (drop (3 * j) nodes))))
       [k..<(length nodes + 2) div 3]"
proof (induction "(length nodes + 2) div 3 - k" arbitrary: k)
  case 0
  then have "\<not> 3 * k < length nodes" by linarith
  with 0 show ?case by (simp add: sendNodes.simps [of _ _ _ _ _ "3 * k"])
next
  case (Suc d)
  then have k: "k < (length nodes + 2) div 3" by linarith
  then have lt: "3 * k < length nodes" by linarith
  from Suc have "d = (length nodes + 2) div 3 - Suc k" by linarith
  from Suc.hyps(1) [OF this] have
    "sendNodes src srcId rid tot nodes (3 * k + 3) =
       map (\<lambda>j. SendResponse src srcId (createNodesMessage rid tot (take 3 (drop (3 * j) nodes))))
         [Suc k..<(length nodes + 2) div 3]"
    by (simp add: add.commute)
  with lt k show ?case
    by (simp add: sendNodes.simps [of _ _ _ _ _ "3 * k"] nodesPerPacket_eq upt_conv_Cons)
qed

lemma slices_concat:
  "concat (map (\<lambda>j. take 3 (drop (3 * j) nodes)) [k..<(length nodes + 2) div 3]) = drop (3 * k) nodes"
proof (induction "(length nodes + 2) div 3 - k" arbitrary: k)
  case 0
  then have "length nodes \<le> 3 * k" by linarith
  with 0 show ?case by simp
next
  case (Suc d)
  then have k: "k < (length nodes + 2) div 3" by linarith
  from Suc have "d = (length nodes + 2) div 3 - Suc k" by linarith
  from Suc.hyps(1) [OF this] have
    "concat (map (\<lambda>j. take 3 (drop (3 * j) nodes)) [Suc k..<(length nodes + 2) div 3])
       = drop (3 + 3 * k) nodes"
    by (simp add: add.commute)
  moreover have "take 3 (drop (3 * k) nodes) @ drop (3 + 3 * k) nodes = drop (3 * k) nodes"
    by (metis append_take_drop_id drop_drop)
  ultimately show ?case using k by (simp add: upt_conv_Cons)
qed

text \<open>
  C8. For a distance greater than 0 at which the table holds \<open>n > 0\<close> records, the
  handler sends \<open>\<lceil>n / nodesPerPacket\<rceil>\<close> NODES responses and nothing else, where
  \<open>nodesPerPacket = \<lfloor>(1280 - 92) / 300\<rfloor> = 3\<close>; every response carries the id of the
  request and the same total \<open>\<lceil>n / nodesPerPacket\<rceil>\<close>; the \<open>j\<close>-th carries the records
  \<open>3j, 3j + 1, 3j + 2\<close> of the table's answer, so the ENR lists concatenate to the \<open>n\<close>
  records in table order. The state is unchanged.
\<close>

theorem onFindNode_splits_records:
  assumes "findnode_distance message \<noteq> 0"
    and "kad_valuesOfDistance C (kbuckets s) (findnode_distance message) = nodes"
    and "nodes \<noteq> []"
  shows "nodesPerPacket = 3
       \<and> int (nodesTotal (length nodes)) = \<lceil>real (length nodes) / real nodesPerPacket\<rceil>
       \<and> onFindNode C s srcId src message =
           (s, map (\<lambda>j. SendResponse src srcId
                          (createNodesMessage (findnode_id message) (nodesTotal (length nodes))
                             (take nodesPerPacket (drop (nodesPerPacket * j) nodes))))
                 [0..<nodesTotal (length nodes)])
       \<and> length (snd (onFindNode C s srcId src message)) = nodesTotal (length nodes)
       \<and> concat (map (\<lambda>j. take nodesPerPacket (drop (nodesPerPacket * j) nodes))
                   [0..<nodesTotal (length nodes)]) = nodes"
proof -
  have run: "onFindNode C s srcId src message =
           (s, map (\<lambda>j. SendResponse src srcId
                          (createNodesMessage (findnode_id message) (nodesTotal (length nodes))
                             (take nodesPerPacket (drop (nodesPerPacket * j) nodes))))
                 [0..<nodesTotal (length nodes)])"
    using assms sendNodes_from [of src srcId "findnode_id message" "nodesTotal (length nodes)" nodes 0]
    by (simp add: onFindNode_def nodesTotal_eq nodesPerPacket_eq)
  have "concat (map (\<lambda>j. take nodesPerPacket (drop (nodesPerPacket * j) nodes))
                   [0..<nodesTotal (length nodes)]) = nodes"
    using slices_concat [of nodes 0] by (simp add: nodesTotal_eq nodesPerPacket_eq)
  with run show ?thesis
    by (simp add: nodesPerPacket_eq nodesTotal_ceiling [unfolded nodesPerPacket_eq])
qed

theorem onFindNode_splits_records_witness:
  "findnode_distance \<lparr>findnode_id = 9, findnode_distance = 200\<rparr> \<noteq> 0
   \<and> kad_valuesOfDistance plainCollaborators (kbuckets fourAtDistance200)
        (findnode_distance \<lparr>findnode_id = 9, findnode_distance = 200\<rparr>)
       = [enrOf ''a'', enrOf ''b'', enrOf ''c'', enrOf ''d'']
   \<and> onFindNode plainCollaborators fourAtDistance200 ''p'' ''addr''
         \<lparr>findnode_id = 9, findnode_distance = 200\<rparr>
       = (fourAtDistance200,
          [SendResponse ''addr'' ''p'' (createNodesMessage 9 2 [enrOf ''a'', enrOf ''b'', enrOf ''c'']),
           SendResponse ''addr'' ''p'' (createNodesMessage 9 2 [enrOf ''d''])])"
proof -
  let ?m = "\<lparr>findnode_id = 9, findnode_distance = 200\<rparr>"
  let ?nodes = "[enrOf ''a'', enrOf ''b'', enrOf ''c'', enrOf ''d'']"
  have far: "findnode_distance ?m \<noteq> 0" by simp
  have held: "kad_valuesOfDistance plainCollaborators (kbuckets fourAtDistance200)
                (findnode_distance ?m) = ?nodes"
    by (simp add: plainCollaborators_def listTable_def fourAtDistance200_def constructor_def
          enrOf_def localEnr_def shell200_def)
  have some: "?nodes \<noteq> []" by simp
  have two: "[0..<2] = [0, 1]" by (simp add: upt_conv_Cons)
  from onFindNode_splits_records [OF far held some, of "''p''" "''addr''"] far held
  show ?thesis by (simp add: nodesTotal_eq nodesPerPacket_eq two)
qed

section \<open>Receiving NODES: packets of one response\<close>

lemma onNodes_refused:
  assumes "fst (retrieveRequest C s srcId (NODES m)) = None"
  shows "onNodes C s srcId src m = (s\<lparr>activeRequests := (activeRequests s)(nodes_id m := None)\<rparr>, [])"
proof -
  have "retrieveRequest C s srcId (NODES m)
          = (None, s\<lparr>activeRequests := (activeRequests s)(nodes_id m := None)\<rparr>)"
    using assms retrieveRequest_state [of C s srcId "NODES m"]
    by (metis prod.collapse response_id.simps(2))
  then show ?thesis by (simp add: onNodes_def)
qed

lemma onNodes_unknown:
  assumes "activeRequests s (nodes_id m) = None"
  shows "onNodes C s srcId src m = (s, [])"
  using assms by (simp add: onNodes_def retrieveRequest_def)

lemma onNodes_accepted_fields:
  assumes "fst (retrieveRequest C s srcId (NODES m)) = Some r"
  shows "activeRequests (fst (onNodes C s srcId src m)) =
           (if 1 < nodes_total m \<and> packetCount s (nodes_id m) < 5
                \<and> packetCount s (nodes_id m) < nodes_total m
            then activeRequests s else (activeRequests s)(nodes_id m := None))"
    and "activeNodesResponses (fst (onNodes C s srcId src m)) (nodes_id m) =
           (if 1 < nodes_total m \<and> packetCount s (nodes_id m) < 5
                \<and> packetCount s (nodes_id m) < nodes_total m
            then Some \<lparr>count = packetCount s (nodes_id m) + 1,
                       enrs = (case activeNodesResponses s (nodes_id m) of
                                 Some c \<Rightarrow> enrs c | None \<Rightarrow> [])\<rparr>
            else None)"
proof -
  have known: "activeRequests s (nodes_id m) = Some r"
    using assms by (simp add: retrieveRequest_accepts_iff)
  have rr: "retrieveRequest C s srcId (NODES m)
          = (Some r, s\<lparr>activeRequests := (activeRequests s)(nodes_id m := None)\<rparr>)"
    using assms retrieveRequest_state [of C s srcId "NODES m"]
    by (metis prod.collapse response_id.simps(2))
  have rearm: "(activeRequests s)(nodes_id m \<mapsto> r) = activeRequests s"
    using known by (simp add: fun_upd_idem)
  show "activeRequests (fst (onNodes C s srcId src m)) =
           (if 1 < nodes_total m \<and> packetCount s (nodes_id m) < 5
                \<and> packetCount s (nodes_id m) < nodes_total m
            then activeRequests s else (activeRequests s)(nodes_id m := None))"
    using rearm
    by (auto simp add: onNodes_def rr packetCount_def Let_def case_prod_beta split: option.splits)
  show "activeNodesResponses (fst (onNodes C s srcId src m)) (nodes_id m) =
           (if 1 < nodes_total m \<and> packetCount s (nodes_id m) < 5
                \<and> packetCount s (nodes_id m) < nodes_total m
            then Some \<lparr>count = packetCount s (nodes_id m) + 1,
                       enrs = (case activeNodesResponses s (nodes_id m) of
                                 Some c \<Rightarrow> enrs c | None \<Rightarrow> [])\<rparr>
            else None)"
    by (simp add: onNodes_def rr packetCount_def Let_def case_prod_beta split: option.splits)
qed

lemma onNodesAll_state:
  "fst (onNodesAll C s srcId src (m # ms)) = fst (onNodesAll C (fst (onNodes C s srcId src m)) srcId src ms)"
  by (simp add: case_prod_beta Let_def)

lemma rest_ignored:
  assumes "activeRequests s rid = None" and "\<forall>m \<in> set ms. nodes_id m = rid"
  shows "onNodesAll C s srcId src ms = (s, []) \<and> acceptedNodes C s srcId src ms = 0"
  using assms
proof (induction ms)
  case Nil
  then show ?case by simp
next
  case (Cons m ms)
  then have unknown: "activeRequests s (nodes_id m) = None" by simp
  then have "fst (retrieveRequest C s srcId (NODES m)) = None"
    by (simp add: retrieveRequest_def)
  with Cons onNodes_unknown [OF unknown, of C srcId src] show ?case by simp
qed

lemma accepted_bound:
  assumes "\<forall>m \<in> set ms. nodes_id m = rid"
    and "1 \<le> packetCount s rid" and "packetCount s rid \<le> 5"
  shows "acceptedNodes C s srcId src ms
           \<le> (if activeRequests s rid = None then 0 else 6 - packetCount s rid)"
  using assms
proof (induction ms arbitrary: s)
  case Nil
  then show ?case by simp
next
  case (Cons m ms)
  then have rid: "nodes_id m = rid" and rest: "\<forall>m \<in> set ms. nodes_id m = rid" by simp_all
  let ?s1 = "fst (onNodes C s srcId src m)"
  show ?case
  proof (cases "fst (retrieveRequest C s srcId (NODES m))")
    case None
    then have "activeRequests ?s1 rid = None"
      using onNodes_refused [OF None, of src] rid by simp
    from rest_ignored [OF this rest] None show ?thesis by simp
  next
    case (Some r)
    then have known: "activeRequests s rid \<noteq> None"
      using rid by (simp add: retrieveRequest_accepts_iff)
    show ?thesis
    proof (cases "1 < nodes_total m \<and> packetCount s rid < 5 \<and> packetCount s rid < nodes_total m")
      case True
      then have "packetCount ?s1 rid = packetCount s rid + 1"
        using onNodes_accepted_fields(2) [OF Some, of src] rid by (simp add: packetCount_def)
      moreover have "activeRequests ?s1 = activeRequests s"
        using onNodes_accepted_fields(1) [OF Some, of src] rid True by simp
      ultimately have "acceptedNodes C ?s1 srcId src ms \<le> 6 - (packetCount s rid + 1)"
        using Cons.IH [OF rest, of ?s1] True known by simp
      moreover have "acceptedNodes C s srcId src (m # ms) = 1 + acceptedNodes C ?s1 srcId src ms"
        using Some by simp
      ultimately show ?thesis using True known by (simp del: acceptedNodes.simps) linarith
    next
      case False
      then have "activeRequests ?s1 rid = None"
        using onNodes_accepted_fields(1) [OF Some, of src] rid by auto
      from rest_ignored [OF this rest] Some Cons.prems known show ?thesis by simp
    qed
  qed
qed

lemma count_bound_run:
  assumes "\<forall>m \<in> set ms. nodes_id m = rid \<and> nodes_total m = t"
    and "\<forall>r. activeNodesResponses s rid = Some r \<longrightarrow> count r \<le> min t 5"
    and "activeNodesResponses (fst (onNodesAll C s srcId src (take k ms))) rid = Some r"
  shows "count r \<le> min t 5"
  using assms
proof (induction ms arbitrary: s k)
  case Nil
  then show ?case by simp
next
  case (Cons m ms)
  show ?case
  proof (cases k)
    case 0
    with Cons.prems show ?thesis by simp
  next
    case (Suc k')
    from Cons.prems have rid: "nodes_id m = rid" and tot: "nodes_total m = t"
      and rest: "\<forall>m \<in> set ms. nodes_id m = rid \<and> nodes_total m = t" by simp_all
    let ?s1 = "fst (onNodes C s srcId src m)"
    have inv: "\<forall>r. activeNodesResponses ?s1 rid = Some r \<longrightarrow> count r \<le> min t 5"
    proof (cases "fst (retrieveRequest C s srcId (NODES m))")
      case None
      from onNodes_refused [OF None, of src] Cons.prems(2) show ?thesis by simp
    next
      case (Some q)
      from onNodes_accepted_fields(2) [OF Some, of src] rid tot show ?thesis
        by (auto split: if_splits)
    qed
    from Cons.prems(3) Suc
    have "activeNodesResponses (fst (onNodesAll C ?s1 srcId src (take k' ms))) rid = Some r"
      by (simp add: case_prod_beta Let_def)
    from Cons.IH [OF rest inv this] show ?thesis .
  qed
qed

lemma finalized_step:
  assumes "fst (retrieveRequest C s srcId (NODES m)) = Some q"
    and "min (nodes_total m) 5 \<le> packetCount s (nodes_id m)"
  shows "activeRequests (fst (onNodes C s srcId src m)) (nodes_id m) = None
       \<and> activeNodesResponses (fst (onNodes C s srcId src m)) (nodes_id m) = None"
  using onNodes_accepted_fields [OF assms(1), of src] assms(2) by auto

lemma onNodesAll_append:
  "fst (onNodesAll C s srcId src (ms @ ms')) =
     fst (onNodesAll C (fst (onNodesAll C s srcId src ms)) srcId src ms')"
  by (induction ms arbitrary: s) (simp_all add: case_prod_beta Let_def)

lemma onNodesAll_take_Suc:
  assumes "k < length ms"
  shows "fst (onNodesAll C s srcId src (take (Suc k) ms)) =
           fst (onNodes C (fst (onNodesAll C s srcId src (take k ms))) srcId src (ms ! k))"
  using assms
  by (simp add: take_Suc_conv_app_nth onNodesAll_append case_prod_beta Let_def)

lemma count_le_5_run:
  assumes "\<forall>m \<in> set ms. nodes_id m = rid"
    and "\<forall>r. activeNodesResponses s rid = Some r \<longrightarrow> count r \<le> 5"
    and "activeNodesResponses (fst (onNodesAll C s srcId src (take k ms))) rid = Some r"
  shows "count r \<le> 5"
  using assms
proof (induction ms arbitrary: s k)
  case Nil
  then show ?case by simp
next
  case (Cons m ms)
  show ?case
  proof (cases k)
    case 0
    with Cons.prems show ?thesis by simp
  next
    case (Suc k')
    from Cons.prems have rid: "nodes_id m = rid"
      and rest: "\<forall>m \<in> set ms. nodes_id m = rid" by simp_all
    let ?s1 = "fst (onNodes C s srcId src m)"
    have inv: "\<forall>r. activeNodesResponses ?s1 rid = Some r \<longrightarrow> count r \<le> 5"
    proof (cases "fst (retrieveRequest C s srcId (NODES m))")
      case None
      from onNodes_refused [OF None, of src] Cons.prems(2) show ?thesis by simp
    next
      case (Some q)
      from onNodes_accepted_fields(2) [OF Some, of src] rid show ?thesis
        by (auto split: if_splits)
    qed
    from Cons.prems(3) Suc
    have "activeNodesResponses (fst (onNodesAll C ?s1 srcId src (take k' ms))) rid = Some r"
      by (simp add: case_prod_beta Let_def)
    from Cons.IH [OF rest inv this] show ?thesis .
  qed
qed

lemma stored_count_bound:
  assumes "fst (retrieveRequest C s srcId (NODES m)) = Some q"
    and "activeNodesResponses (fst (onNodes C s srcId src m)) (nodes_id m) = Some r"
  shows "count r \<le> min (nodes_total m) 5"
  using onNodes_accepted_fields(2) [OF assms(1), of src] assms(2)
  by (auto split: if_splits)

lemma finalize_calls_discovered:
  assumes "fst (retrieveRequest C s srcId (NODES m)) = Some q"
    and "min (nodes_total m) 5 \<le> packetCount s (nodes_id m)"
  shows "onNodes C s srcId src m =
           discovered C
             (s\<lparr>activeRequests := (activeRequests s)(nodes_id m := None),
                activeNodesResponses := (activeNodesResponses s)(nodes_id m := None)\<rparr>)
             srcId
             (filter (\<lambda>enr. Some (log2Distance C (nodeId enr) (nodeId (session_enr C)))
                              = distanceRequested (fst q)) (nodes_enrs m)
              @ (if 1 < nodes_total m
                 then (case activeNodesResponses s (nodes_id m) of Some c \<Rightarrow> enrs c | None \<Rightarrow> [])
                 else []))
             (snd q)"
proof -
  have rr: "retrieveRequest C s srcId (NODES m)
          = (Some q, s\<lparr>activeRequests := (activeRequests s)(nodes_id m := None)\<rparr>)"
    using assms(1) retrieveRequest_state [of C s srcId "NODES m"]
    by (metis prod.collapse response_id.simps(2))
  show ?thesis
    using assms(2)
    by (auto simp add: onNodes_def rr packetCount_def Let_def case_prod_beta
             split: option.splits)
qed

text \<open>
  C6, as stated: the count of a response never exceeds \<open>min total 5\<close>, and once it has
  reached \<open>min total 5\<close> the response is finalized and no further packet is accumulated.
  The accumulator keeps no total; \<open>onNodes\<close> compares the count with the total of the
  packet at hand. After the first packet of a response that declares total 2 the count
  is 2; a second packet that declares total 8 is accumulated all the same, nothing is
  handed to \<open>discovered\<close>, the request stays registered, and the count goes to 3 and on
  to 5. This holds with an outstanding FINDNODE when the kind check lets NODES through,
  and with an outstanding PING under the kind check of the specification.
\<close>

theorem nodes_total_not_fixed_counterexample:
  "activeNodesResponses
       (fst (onNodesAll kindsDifferCollaborators findNodeOutstanding ''q'' ''addr'' [packetOf2])) 11
     = Some \<lparr>count = 2, enrs = []\<rparr>
   \<and> onNodesAll kindsDifferCollaborators findNodeOutstanding ''q'' ''addr'' [packetOf2, packetOf8]
       = (findNodeOutstanding\<lparr>activeNodesResponses := [11 \<mapsto> \<lparr>count = 3, enrs = []\<rparr>]\<rparr>, [])
   \<and> activeNodesResponses
         (fst (onNodesAll kindsDifferCollaborators findNodeOutstanding ''q'' ''addr''
                 [packetOf2, packetOf8, packetOf8, packetOf8])) 11
       = Some \<lparr>count = 5, enrs = []\<rparr>
   \<and> onNodesAll plainCollaborators pingOutstanding ''q'' ''addr'' [packetOf2, packetOf8]
       = (pingOutstanding\<lparr>activeNodesResponses := [11 \<mapsto> \<lparr>count = 3, enrs = []\<rparr>]\<rparr>, [])
   \<and> \<not> 3 \<le> min (nodes_total packetOf2) 5"
proof (intro conjI)
  show "activeNodesResponses
       (fst (onNodesAll kindsDifferCollaborators findNodeOutstanding ''q'' ''addr'' [packetOf2])) 11
     = Some \<lparr>count = 2, enrs = []\<rparr>"
    by (simp add: findNodeOutstanding_def withRequest_def constructor_def packetOf2_def
          createFindNodeMessage_def onNodes_def retrieveRequest_def kindsDifferCollaborators_def
          listTable_def eval_nat_numeral)
  show "onNodesAll kindsDifferCollaborators findNodeOutstanding ''q'' ''addr'' [packetOf2, packetOf8]
       = (findNodeOutstanding\<lparr>activeNodesResponses := [11 \<mapsto> \<lparr>count = 3, enrs = []\<rparr>]\<rparr>, [])"
    by (simp add: findNodeOutstanding_def withRequest_def constructor_def packetOf2_def packetOf8_def
          createFindNodeMessage_def onNodes_def retrieveRequest_def kindsDifferCollaborators_def
          listTable_def eval_nat_numeral)
  show "activeNodesResponses
         (fst (onNodesAll kindsDifferCollaborators findNodeOutstanding ''q'' ''addr''
                 [packetOf2, packetOf8, packetOf8, packetOf8])) 11
       = Some \<lparr>count = 5, enrs = []\<rparr>"
    by (simp add: findNodeOutstanding_def withRequest_def constructor_def packetOf2_def packetOf8_def
          createFindNodeMessage_def onNodes_def retrieveRequest_def kindsDifferCollaborators_def
          listTable_def eval_nat_numeral)
  show "onNodesAll plainCollaborators pingOutstanding ''q'' ''addr'' [packetOf2, packetOf8]
       = (pingOutstanding\<lparr>activeNodesResponses := [11 \<mapsto> \<lparr>count = 3, enrs = []\<rparr>]\<rparr>, [])"
    by (simp add: pingOutstanding_def withRequest_def constructor_def packetOf2_def packetOf8_def
          onNodes_def retrieveRequest_def plainCollaborators_def listTable_def eval_nat_numeral)
  show "\<not> 3 \<le> min (nodes_total packetOf2) 5"
    by (simp add: packetOf2_def)
qed

text \<open>
  C6, amended. Let any NODES packets for one request id arrive, and let no accumulator
  exist for the id at the start. Then in every state the run goes through, the count of
  the id's accumulator is at most 5; the count that an accepted packet leaves behind is
  at most \<open>min total 5\<close> for the total that this packet declares; when all packets declare
  the same total \<open>t\<close>, the count is at most \<open>min t 5\<close> in every state; and at most 5 of the
  packets are accepted. In any state, a packet that is accepted when the count has
  reached \<open>min total 5\<close> for its own total finalizes the response: \<open>onNodes\<close> is then the
  call of \<open>discovered\<close> with the packet's ENRs of the requested distance (followed, when
  the total exceeds 1, by the accumulator's), in the state without request entry and
  accumulator, and every later packet with that id is ignored, leaving state and
  effects untouched.
\<close>

theorem nodes_packets_capped:
  assumes "\<forall>m \<in> set ms. nodes_id m = rid"
    and "activeNodesResponses s rid = None"
  shows "(\<forall>k r. activeNodesResponses (fst (onNodesAll C s srcId src (take k ms))) rid = Some r
            \<longrightarrow> count r \<le> 5)
       \<and> (\<forall>k r. k < length ms
              \<and> fst (retrieveRequest C (fst (onNodesAll C s srcId src (take k ms))) srcId
                       (NODES (ms ! k))) \<noteq> None
              \<and> activeNodesResponses (fst (onNodesAll C s srcId src (take (Suc k) ms))) rid = Some r
            \<longrightarrow> count r \<le> min (nodes_total (ms ! k)) 5)
       \<and> ((\<forall>m \<in> set ms. nodes_total m = t)
            \<longrightarrow> (\<forall>k r. activeNodesResponses (fst (onNodesAll C s srcId src (take k ms))) rid = Some r
                    \<longrightarrow> count r \<le> min t 5))
       \<and> acceptedNodes C s srcId src ms \<le> 5
       \<and> (\<forall>s' m q later.
            nodes_id m = rid
            \<and> fst (retrieveRequest C s' srcId (NODES m)) = Some q
            \<and> min (nodes_total m) 5 \<le> packetCount s' rid
            \<and> (\<forall>m' \<in> set later. nodes_id m' = rid)
            \<longrightarrow> onNodes C s' srcId src m =
                  discovered C
                    (s'\<lparr>activeRequests := (activeRequests s')(rid := None),
                        activeNodesResponses := (activeNodesResponses s')(rid := None)\<rparr>)
                    srcId
                    (filter (\<lambda>enr. Some (log2Distance C (nodeId enr) (nodeId (session_enr C)))
                                     = distanceRequested (fst q)) (nodes_enrs m)
                     @ (if 1 < nodes_total m
                        then (case activeNodesResponses s' rid of Some c \<Rightarrow> enrs c | None \<Rightarrow> [])
                        else []))
                    (snd q)
              \<and> activeRequests (fst (onNodes C s' srcId src m)) rid = None
              \<and> activeNodesResponses (fst (onNodes C s' srcId src m)) rid = None
              \<and> acceptedNodes C (fst (onNodes C s' srcId src m)) srcId src later = 0
              \<and> onNodesAll C (fst (onNodes C s' srcId src m)) srcId src later
                   = (fst (onNodes C s' srcId src m), []))"
proof (intro conjI allI impI)
  fix k r
  assume "activeNodesResponses (fst (onNodesAll C s srcId src (take k ms))) rid = Some r"
  with count_le_5_run [OF assms(1), of s C srcId src k r] assms(2)
  show "count r \<le> 5" by simp
next
  fix k r
  assume a: "k < length ms
              \<and> fst (retrieveRequest C (fst (onNodesAll C s srcId src (take k ms))) srcId
                       (NODES (ms ! k))) \<noteq> None
              \<and> activeNodesResponses (fst (onNodesAll C s srcId src (take (Suc k) ms))) rid = Some r"
  then have rid: "nodes_id (ms ! k) = rid" using assms(1) by simp
  from a obtain q where
    "fst (retrieveRequest C (fst (onNodesAll C s srcId src (take k ms))) srcId (NODES (ms ! k))) = Some q"
    by auto
  moreover from a have "activeNodesResponses
      (fst (onNodes C (fst (onNodesAll C s srcId src (take k ms))) srcId src (ms ! k)))
      (nodes_id (ms ! k)) = Some r"
    using onNodesAll_take_Suc [of k ms C s srcId src] rid by simp
  ultimately show "count r \<le> min (nodes_total (ms ! k)) 5"
    by (rule stored_count_bound)
next
  fix k r
  assume "\<forall>m \<in> set ms. nodes_total m = t"
    and "activeNodesResponses (fst (onNodesAll C s srcId src (take k ms))) rid = Some r"
  with count_bound_run [of ms rid t s C srcId src k r] assms
  show "count r \<le> min t 5" by simp
next
  have "acceptedNodes C s srcId src ms
           \<le> (if activeRequests s rid = None then 0 else 6 - packetCount s rid)"
    using assms by (intro accepted_bound) (simp_all add: packetCount_def)
  also have "\<dots> \<le> 5" using assms(2) by (simp add: packetCount_def)
  finally show "acceptedNodes C s srcId src ms \<le> 5" .
next
  fix s' :: "'a Discv5" and m :: INodesMessage and q and later :: "INodesMessage list"
  assume a: "nodes_id m = rid
            \<and> fst (retrieveRequest C s' srcId (NODES m)) = Some q
            \<and> min (nodes_total m) 5 \<le> packetCount s' rid
            \<and> (\<forall>m' \<in> set later. nodes_id m' = rid)"
  then have fin: "activeRequests (fst (onNodes C s' srcId src m)) rid = None
       \<and> activeNodesResponses (fst (onNodes C s' srcId src m)) rid = None"
    using finalized_step [of C s' srcId m q src] by auto
  from a finalize_calls_discovered [of C s' srcId m q src]
  show "onNodes C s' srcId src m =
                  discovered C
                    (s'\<lparr>activeRequests := (activeRequests s')(rid := None),
                        activeNodesResponses := (activeNodesResponses s')(rid := None)\<rparr>)
                    srcId
                    (filter (\<lambda>enr. Some (log2Distance C (nodeId enr) (nodeId (session_enr C)))
                                     = distanceRequested (fst q)) (nodes_enrs m)
                     @ (if 1 < nodes_total m
                        then (case activeNodesResponses s' rid of Some c \<Rightarrow> enrs c | None \<Rightarrow> [])
                        else []))
                    (snd q)"
    by auto
  from fin show "activeRequests (fst (onNodes C s' srcId src m)) rid = None" by simp
  from fin show "activeNodesResponses (fst (onNodes C s' srcId src m)) rid = None" by simp
  from a fin rest_ignored [of "fst (onNodes C s' srcId src m)" rid later C srcId src]
  show "acceptedNodes C (fst (onNodes C s' srcId src m)) srcId src later = 0"
    and "onNodesAll C (fst (onNodes C s' srcId src m)) srcId src later
                   = (fst (onNodes C s' srcId src m), [])"
    by simp_all
qed

theorem nodes_packets_capped_witness:
  "nodes_id packetOf8 = 11
   \<and> activeNodesResponses findNodeOutstanding 11 = None
   \<and> acceptedNodes kindsDifferCollaborators findNodeOutstanding ''q'' ''addr'' (replicate 6 packetOf8) = 5
   \<and> acceptedNodes kindsDifferCollaborators findNodeOutstanding ''q'' ''addr'' (replicate 6 packetOf8) \<le> 5
   \<and> activeNodesResponses
        (fst (onNodesAll kindsDifferCollaborators findNodeOutstanding ''q'' ''addr''
                (replicate 4 packetOf8))) 11
       = Some \<lparr>count = 5, enrs = []\<rparr>
   \<and> onNodesAll kindsDifferCollaborators findNodeOutstanding ''q'' ''addr'' (replicate 6 packetOf8)
       = (constructor [], [EmitDiscovered (enrOf ''a''), UpdateEnr (enrOf ''a'')])"
proof -
  have same: "\<forall>m \<in> set (replicate 6 packetOf8). nodes_id m = 11"
    by (simp add: packetOf8_def)
  have fresh: "activeNodesResponses findNodeOutstanding 11 = None"
    by (simp add: findNodeOutstanding_def withRequest_def constructor_def)
  have six: "replicate 6 packetOf8 = [packetOf8, packetOf8, packetOf8, packetOf8, packetOf8, packetOf8]"
    by (simp add: numeral_eq_Suc)
  have four: "replicate 4 packetOf8 = [packetOf8, packetOf8, packetOf8, packetOf8]"
    by (simp add: numeral_eq_Suc)
  have run4: "activeNodesResponses
        (fst (onNodesAll kindsDifferCollaborators findNodeOutstanding ''q'' ''addr''
                (replicate 4 packetOf8))) 11
       = Some \<lparr>count = 5, enrs = []\<rparr>"
    unfolding four
    by (simp add: findNodeOutstanding_def withRequest_def constructor_def packetOf8_def
          createFindNodeMessage_def onNodes_def retrieveRequest_def kindsDifferCollaborators_def
          listTable_def eval_nat_numeral)
  have run6: "onNodesAll kindsDifferCollaborators findNodeOutstanding ''q'' ''addr'' (replicate 6 packetOf8)
       = (constructor [], [EmitDiscovered (enrOf ''a''), UpdateEnr (enrOf ''a'')])"
    unfolding six
    by (simp add: findNodeOutstanding_def withRequest_def constructor_def packetOf8_def
          createFindNodeMessage_def onNodes_def retrieveRequest_def kindsDifferCollaborators_def
          listTable_def discovered_def enrOf_def localEnr_def shell200_def Let_def eval_nat_numeral)
  have accepted: "acceptedNodes kindsDifferCollaborators findNodeOutstanding ''q'' ''addr''
                    (replicate 6 packetOf8) = 5"
    unfolding six
    by (simp add: findNodeOutstanding_def withRequest_def constructor_def packetOf8_def
          createFindNodeMessage_def onNodes_def retrieveRequest_def kindsDifferCollaborators_def
          listTable_def discovered_def enrOf_def localEnr_def shell200_def Let_def eval_nat_numeral)
  from nodes_packets_capped [OF same fresh, of kindsDifferCollaborators "''q''" "''addr''"]
  have "acceptedNodes kindsDifferCollaborators findNodeOutstanding ''q'' ''addr''
          (replicate 6 packetOf8) \<le> 5"
    by simp
  moreover have "nodes_id packetOf8 = 11" by (simp add: packetOf8_def)
  ultimately show ?thesis using fresh accepted run4 run6 by simp
qed

text \<open>
  The accumulator of a request never receives a record: \<open>onNodes\<close> stores the count and
  the list it found, and a fresh accumulator starts with the empty list.
\<close>

lemma accumulated_enrs_empty:
  assumes "\<forall>m \<in> set ms. nodes_id m = rid"
    and "\<forall>r. activeNodesResponses s rid = Some r \<longrightarrow> enrs r = []"
    and "activeNodesResponses (fst (onNodesAll C s srcId src (take k ms))) rid = Some r"
  shows "enrs r = []"
  using assms
proof (induction ms arbitrary: s k)
  case Nil
  then show ?case by simp
next
  case (Cons m ms)
  show ?case
  proof (cases k)
    case 0
    with Cons.prems show ?thesis by simp
  next
    case (Suc k')
    from Cons.prems have rid: "nodes_id m = rid"
      and rest: "\<forall>m \<in> set ms. nodes_id m = rid" by simp_all
    let ?s1 = "fst (onNodes C s srcId src m)"
    have inv: "\<forall>r. activeNodesResponses ?s1 rid = Some r \<longrightarrow> enrs r = []"
    proof (cases "fst (retrieveRequest C s srcId (NODES m))")
      case None
      from onNodes_refused [OF None, of src] Cons.prems(2) show ?thesis by simp
    next
      case (Some q)
      from onNodes_accepted_fields(2) [OF Some, of src] rid Cons.prems(2) show ?thesis
        by (auto split: if_splits option.splits)
    qed
    from Cons.prems(3) Suc
    have "activeNodesResponses (fst (onNodesAll C ?s1 srcId src (take k' ms))) rid = Some r"
      by (simp add: case_prod_beta Let_def)
    from Cons.IH [OF rest inv this] show ?thesis .
  qed
qed

text \<open>
  C1. The claim is that the ENRs of all accepted packets of a multi-packet response
  reach \<open>discovered\<close> together. With FINDNODE 11 outstanding and the packets \<open>[a]\<close>,
  \<open>[b, c]\<close>, \<open>[d]\<close> of total 3 arriving, the kind check of \<open>retrieveRequest\<close> refuses the
  first packet and clears the request, so nothing is discovered at all. With a kind
  check that lets the packets through, the first two packets only raise the count, and
  \<open>discovered\<close> receives the records of the last packet alone: \<open>d\<close>.
\<close>

theorem onNodes_loses_accumulated_enrs:
  "onNodesAll plainCollaborators findNodeOutstanding ''q'' ''addr'' threePackets = (constructor [], [])
   \<and> snd (onNodesAll kindsDifferCollaborators findNodeOutstanding ''q'' ''addr'' threePackets)
       = [EmitDiscovered (enrOf ''d''), UpdateEnr (enrOf ''d'')]"
proof
  show "onNodesAll plainCollaborators findNodeOutstanding ''q'' ''addr'' threePackets = (constructor [], [])"
    by (simp add: threePackets_def findNodeOutstanding_def withRequest_def constructor_def
          createFindNodeMessage_def onNodes_def retrieveRequest_def plainCollaborators_def
          listTable_def)
  show "snd (onNodesAll kindsDifferCollaborators findNodeOutstanding ''q'' ''addr'' threePackets)
       = [EmitDiscovered (enrOf ''d''), UpdateEnr (enrOf ''d'')]"
    by (simp add: threePackets_def findNodeOutstanding_def withRequest_def constructor_def
          createFindNodeMessage_def onNodes_def retrieveRequest_def kindsDifferCollaborators_def
          listTable_def discovered_def enrOf_def localEnr_def shell200_def Let_def)
qed

section \<open>Lookup ids\<close>

lemma findNode_id [simp]: "fst (findNode C s target) = nextLookupId s"
  by (simp add: findNode_def Let_def)

lemma findNode_nextLookupId [simp]:
  "nextLookupId (fst (snd (findNode C s target))) =
     (if nextLookupId s \<ge> 2 ^ 32 then 1 else nextLookupId s + 1)"
  by (simp add: findNode_def Let_def)

lemma discovered_nextLookupId [simp]:
  "nextLookupId (fst (discovered C s srcId es l)) = nextLookupId s"
  by (simp add: discovered_def Let_def split: prod.splits option.splits)

lemma discovered_lookup_keys [simp]:
  "fst ` set (activeLookups (fst (discovered C s srcId es l))) = fst ` set (activeLookups s)"
  by (auto simp add: discovered_def Let_def dom_update split: prod.splits option.splits
           dest: map_of_SomeD intro: rev_image_eqI)

lemma connectionUpdated_lookups [simp]:
  "nextLookupId (fst (connectionUpdated C s nid enr st)) = nextLookupId s"
  "activeLookups (fst (connectionUpdated C s nid enr st)) = activeLookups s"
  by (simp_all add: connectionUpdated_def Let_def split: prod.splits option.splits)

lemma sendLookup_lookups [simp]:
  "nextLookupId (fst (sendLookup C s rid l target peer)) = nextLookupId s"
  "activeLookups (fst (sendLookup C s rid l target peer)) = activeLookups s"
  by (simp_all add: sendLookup_def sendRequest_def Let_def split: option.splits)

lemma onFindNode_state [simp]: "fst (onFindNode C s srcId src message) = s"
  by (simp add: onFindNode_def Let_def)

lemma onNodes_lookups [simp]:
  "nextLookupId (fst (onNodes C s srcId src m)) = nextLookupId s"
  "fst ` set (activeLookups (fst (onNodes C s srcId src m))) = fst ` set (activeLookups s)"
  by (simp_all add: onNodes_def retrieveRequest_def Let_def case_prod_beta split: option.splits)

lemma onRequestFailed_lookups [simp]:
  "nextLookupId (fst (onRequestFailed C s srcId rpcId)) = nextLookupId s"
  "fst ` set (activeLookups (fst (onRequestFailed C s srcId rpcId))) = fst ` set (activeLookups s)"
  by (simp_all add: onRequestFailed_def Let_def case_prod_beta
        split: option.splits RequestMessage.splits)

lemma onLookupFinished_lookups:
  "nextLookupId (onLookupFinished s l) = nextLookupId s"
  "fst ` set (activeLookups (onLookupFinished s l)) \<subseteq> fst ` set (activeLookups s)"
  by (simp_all add: onLookupFinished_def dom_delete_subset)

lemma findNode_lookup_keys [simp]:
  "fst ` set (activeLookups (fst (snd (findNode C s target)))) =
     insert (nextLookupId s) (fst ` set (activeLookups s))"
  by (simp add: findNode_def Let_def dom_update)

lemma handle_step:
  assumes "nextLookupId s = n mod 2 ^ 32 + 1"
    and "fst ` set (activeLookups s) \<subseteq> (\<lambda>k. k mod 2 ^ 32 + 1) ` {..<n}"
  shows "(fst (handle C s ev) = [n mod 2 ^ 32 + 1]
          \<and> nextLookupId (snd (handle C s ev)) = Suc n mod 2 ^ 32 + 1
          \<and> fst ` set (activeLookups (snd (handle C s ev)))
                \<subseteq> (\<lambda>k. k mod 2 ^ 32 + 1) ` {..<Suc n})
       \<or> (fst (handle C s ev) = []
          \<and> nextLookupId (snd (handle C s ev)) = n mod 2 ^ 32 + 1
          \<and> fst ` set (activeLookups (snd (handle C s ev)))
                \<subseteq> (\<lambda>k. k mod 2 ^ 32 + 1) ` {..<n})"
proof (cases ev)
  case (CallFindNode target)
  have "n mod 2 ^ 32 < (2::nat) ^ 32" by simp
  then have next1: "(if (2::nat) ^ 32 \<le> n mod 2 ^ 32 + 1 then 1 else n mod 2 ^ 32 + 1 + 1)
                 = Suc n mod 2 ^ 32 + 1"
    by (auto simp add: mod_Suc)
  have "(\<lambda>k. k mod 2 ^ 32 + 1) ` {..<n} \<subseteq> (\<lambda>k::nat. k mod 2 ^ 32 + 1) ` {..<Suc n}"
    by (rule image_mono) auto
  with assms next1 CallFindNode show ?thesis
    by (auto simp del: One_nat_def)
next
  case (LookupFinished l)
  with assms onLookupFinished_lookups [of s l] show ?thesis by auto
next
  case (LookupPeer rid l target peer)
  with assms show ?thesis by simp
next
  case (MessageFindNode srcId src message)
  with assms show ?thesis by simp
next
  case (MessageNodes srcId src message)
  with assms show ?thesis by simp
next
  case (RequestFailed srcId rpcId)
  with assms show ?thesis by simp
qed

lemma handleAll_ids:
  assumes "nextLookupId s = n mod 2 ^ 32 + 1"
    and "fst ` set (activeLookups s) \<subseteq> (\<lambda>k. k mod 2 ^ 32 + 1) ` {..<n}"
  shows "fst (handleAll C s evs) =
           map (\<lambda>k. (n + k) mod 2 ^ 32 + 1) [0..<length (fst (handleAll C s evs))]
       \<and> nextLookupId (snd (handleAll C s evs))
           = (n + length (fst (handleAll C s evs))) mod 2 ^ 32 + 1
       \<and> fst ` set (activeLookups (snd (handleAll C s evs)))
           \<subseteq> (\<lambda>k. k mod 2 ^ 32 + 1) ` {..<n + length (fst (handleAll C s evs))}"
  using assms
proof (induction evs arbitrary: s n)
  case Nil
  then show ?case by simp
next
  case (Cons ev evs)
  let ?s1 = "snd (handle C s ev)"
  let ?rest = "fst (handleAll C ?s1 evs)"
  have unfold: "handleAll C s (ev # evs) =
      (fst (handle C s ev) @ ?rest, snd (handleAll C ?s1 evs))"
    by (simp add: case_prod_beta Let_def)
  from handle_step [OF Cons.prems, of C ev] show ?case
  proof
    assume a: "fst (handle C s ev) = [n mod 2 ^ 32 + 1]
          \<and> nextLookupId ?s1 = Suc n mod 2 ^ 32 + 1
          \<and> fst ` set (activeLookups ?s1) \<subseteq> (\<lambda>k. k mod 2 ^ 32 + 1) ` {..<Suc n}"
    then have ih: "?rest = map (\<lambda>k. (Suc n + k) mod 2 ^ 32 + 1) [0..<length ?rest]
       \<and> nextLookupId (snd (handleAll C ?s1 evs)) = (Suc n + length ?rest) mod 2 ^ 32 + 1
       \<and> fst ` set (activeLookups (snd (handleAll C ?s1 evs)))
           \<subseteq> (\<lambda>k. k mod 2 ^ 32 + 1) ` {..<Suc n + length ?rest}"
      using Cons.IH [of ?s1 "Suc n"] by simp
    have "[0..<Suc (length ?rest)] = 0 # map Suc [0..<length ?rest]"
      by (simp add: upt_conv_Cons map_Suc_upt del: upt_Suc)
    then have "map (\<lambda>k. (n + k) mod 2 ^ 32 + 1) [0..<Suc (length ?rest)]
        = (n mod 2 ^ 32 + 1) # map (\<lambda>k. (Suc n + k) mod 2 ^ 32 + 1) [0..<length ?rest]"
      by (simp add: comp_def del: upt_Suc)
    with a ih show ?thesis
      unfolding unfold by (simp del: upt_Suc)
  next
    assume a: "fst (handle C s ev) = []
          \<and> nextLookupId ?s1 = n mod 2 ^ 32 + 1
          \<and> fst ` set (activeLookups ?s1) \<subseteq> (\<lambda>k. k mod 2 ^ 32 + 1) ` {..<n}"
    then show ?thesis
      unfolding unfold using Cons.IH [of ?s1 n] by simp
  qed
qed

lemma handleAll_calls:
  "length (fst (handleAll C s evs)) = length [target. CallFindNode target \<leftarrow> evs]"
proof (induction evs arbitrary: s)
  case Nil
  then show ?case by simp
next
  case (Cons ev evs)
  then show ?case by (cases ev) (simp_all add: case_prod_beta Let_def)
qed

lemma ids_window:
  assumes "i < j" and "j - i < 2 ^ 32"
  shows "i mod 2 ^ 32 + 1 \<noteq> j mod (2::nat) ^ 32 + 1"
proof
  assume "i mod 2 ^ 32 + 1 = j mod (2::nat) ^ 32 + 1"
  then have "i mod 2 ^ 32 = j mod (2::nat) ^ 32" by simp
  then have "(2::nat) ^ 32 dvd j - i"
    using assms(1) by (metis mod_eq_dvd_iff_nat less_imp_le_nat)
  with assms show False
    by (meson dvd_imp_le zero_less_diff not_less)
qed

lemma calls_of_map [simp]: "[target. CallFindNode target \<leftarrow> map CallFindNode targets] = targets"
  by (induction targets) simp_all

lemma findNode_runs_keep:
  assumes "l \<notin> set (fst (handleAll C s (map CallFindNode targets)))"
  shows "map_of (activeLookups (snd (handleAll C s (map CallFindNode targets)))) l
           = map_of (activeLookups s) l"
  using assms
proof (induction targets arbitrary: s)
  case Nil
  then show ?case by simp
next
  case (Cons target targets)
  let ?s1 = "fst (snd (findNode C s target))"
  from Cons.prems have ne: "l \<noteq> nextLookupId s"
    and rest: "l \<notin> set (fst (handleAll C ?s1 (map CallFindNode targets)))"
    by (simp_all add: case_prod_beta Let_def)
  have "map_of (activeLookups ?s1) l = map_of (activeLookups s) l"
    using ne by (simp add: findNode_def Let_def update_conv')
  with Cons.IH [OF rest] show ?case
    by (simp add: case_prod_beta Let_def)
qed

lemma run_from_constructor:
  "fst (handleAll C (constructor kb) evs)
     = map (\<lambda>k. k mod 2 ^ 32 + 1) [0..<length [target. CallFindNode target \<leftarrow> evs]]"
  "nextLookupId (snd (handleAll C (constructor kb) evs))
     = length [target. CallFindNode target \<leftarrow> evs] mod 2 ^ 32 + 1"
  "fst ` set (activeLookups (snd (handleAll C (constructor kb) evs)))
     \<subseteq> (\<lambda>k. k mod 2 ^ 32 + 1) ` {..<length [target. CallFindNode target \<leftarrow> evs]}"
proof -
  have start: "nextLookupId (constructor kb) = 0 mod 2 ^ 32 + 1"
    "fst ` set (activeLookups (constructor kb)) \<subseteq> (\<lambda>k. k mod 2 ^ 32 + 1) ` {..<0}"
    by (simp_all add: constructor_def)
  note run = handleAll_ids [OF start, of C evs, unfolded handleAll_calls add_0]
  from run show "fst (handleAll C (constructor kb) evs)
     = map (\<lambda>k. k mod 2 ^ 32 + 1) [0..<length [target. CallFindNode target \<leftarrow> evs]]"
    by (rule conjunct1)
  from run show "nextLookupId (snd (handleAll C (constructor kb) evs))
     = length [target. CallFindNode target \<leftarrow> evs] mod 2 ^ 32 + 1"
    by (rule conjunct1 [OF conjunct2])
  from run show "fst ` set (activeLookups (snd (handleAll C (constructor kb) evs)))
     \<subseteq> (\<lambda>k. k mod 2 ^ 32 + 1) ` {..<length [target. CallFindNode target \<leftarrow> evs]}"
    by (rule conjunct2 [OF conjunct2])
qed

text \<open>
  C7, as stated: every id handed out is below \<open>2\<^sup>3\<^sup>2\<close>, and all live lookups have
  different ids. The guard of \<open>findNode\<close> compares the id just handed out with \<open>2\<^sup>3\<^sup>2\<close>, so
  the last of the first \<open>2\<^sup>3\<^sup>2\<close> lookups of a run gets the id \<open>2\<^sup>3\<^sup>2\<close>. After these \<open>2\<^sup>3\<^sup>2\<close>
  calls the first lookup, for target \<open>t\<close>, is still registered under id 1; the next call
  gets id 1 again and puts its own lookup, for target \<open>v\<close>, in that place.
\<close>

theorem findNode_ids_reach_2_32_counterexample:
  "\<not> last (fst (handleAll plainCollaborators (constructor [])
                  (map CallFindNode (replicate (2 ^ 32) ''t'')))) < 2 ^ 32
   \<and> map_option lookup_target
        (map_of (activeLookups (snd (handleAll plainCollaborators (constructor []) wrappingRun))) 1)
       = Some ''t''
   \<and> fst (findNode plainCollaborators
             (snd (handleAll plainCollaborators (constructor []) wrappingRun)) ''v'') = 1
   \<and> map_option lookup_target
        (map_of (activeLookups (fst (snd (findNode plainCollaborators
             (snd (handleAll plainCollaborators (constructor []) wrappingRun)) ''v'')))) 1)
       = Some ''v''"
proof -
  let ?C = plainCollaborators
  let ?s0 = "constructor [] :: Entry list Discv5"
  have "fst (handleAll ?C ?s0 (map CallFindNode (replicate (2 ^ 32) ''t'')))
          = map (\<lambda>k. k mod 2 ^ 32 + 1) [0..<2 ^ 32]"
    using run_from_constructor(1) [of ?C "[]" "map CallFindNode (replicate (2 ^ 32) ''t'')"]
    by simp
  moreover have "last (map (\<lambda>k::nat. k mod 2 ^ 32 + 1) [0..<2 ^ 32]) = 2 ^ 32"
    by (simp add: last_map)
  ultimately have reach:
    "\<not> last (fst (handleAll ?C ?s0 (map CallFindNode (replicate (2 ^ 32) ''t'')))) < 2 ^ 32"
    by simp
  let ?s1 = "fst (snd (findNode ?C ?s0 ''t''))"
  let ?us = "map CallFindNode (replicate (2 ^ 32 - 1) ''u'')"
  let ?sR = "snd (handleAll ?C ?s1 ?us)"
  have s1: "nextLookupId ?s1 = 1 mod 2 ^ 32 + 1"
    "fst ` set (activeLookups ?s1) \<subseteq> (\<lambda>k. k mod 2 ^ 32 + 1) ` {..<1}"
    by (simp_all add: findNode_def constructor_def Let_def)
  have first: "map_option lookup_target (map_of (activeLookups ?s1) 1) = Some ''t''"
    by (simp add: findNode_def constructor_def Let_def)
  have split: "snd (handleAll ?C ?s0 wrappingRun) = ?sR"
    by (simp add: wrappingRun_def case_prod_beta Let_def)
  note run = handleAll_ids [OF s1, of ?C ?us, unfolded handleAll_calls calls_of_map length_replicate]
  from run have ids: "fst (handleAll ?C ?s1 ?us)
                        = map (\<lambda>k. (1 + k) mod 2 ^ 32 + 1) [0..<2 ^ 32 - 1]"
    by (rule conjunct1)
  from run have "nextLookupId ?sR = (1 + (2 ^ 32 - 1)) mod 2 ^ 32 + 1"
    by (rule conjunct1 [OF conjunct2])
  then have nxt: "nextLookupId ?sR = 1" by simp
  have "(1 + k) mod 2 ^ 32 + 1 \<noteq> (1::nat)" if "k < 2 ^ 32 - 1" for k :: nat
    using that by simp
  then have "1 \<notin> set (map (\<lambda>k::nat. (1 + k) mod 2 ^ 32 + 1) [0..<2 ^ 32 - 1])"
    by auto
  then have "1 \<notin> set (fst (handleAll ?C ?s1 ?us))"
    unfolding ids .
  from findNode_runs_keep [OF this]
  have "map_of (activeLookups ?sR) 1 = map_of (activeLookups ?s1) 1" .
  with first have live: "map_option lookup_target (map_of (activeLookups ?sR) 1) = Some ''t''"
    by simp
  have again: "fst (findNode ?C ?sR ''v'') = 1"
    using nxt by simp
  have replaced: "map_option lookup_target
        (map_of (activeLookups (fst (snd (findNode ?C ?sR ''v'')))) 1) = Some ''v''"
    using nxt by (simp add: findNode_def Let_def update_conv')
  from reach live again replaced show ?thesis
    unfolding split by (intro conjI)
qed

text \<open>
  C7, amended: whatever events of the kinds above lie between the calls, from the
  constructor's state on the \<open>k\<close>-th call of \<open>findNode\<close> (counting from 0) hands out the id \<open>k mod 2\<^sup>3\<^sup>2 + 1\<close>: the
  ids start at 1, go up by 1, wrap to 1 after \<open>2\<^sup>3\<^sup>2\<close> has been handed out, and every id
  lies between 1 and \<open>2\<^sup>3\<^sup>2\<close>, both included, so none is 0. Two lookups started fewer than
  \<open>2\<^sup>3\<^sup>2\<close> calls apart have different ids. As long as fewer than \<open>2\<^sup>3\<^sup>2\<close> lookups have been
  started, the id that the next call will hand out is not registered in
  \<open>activeLookups\<close>, so no call replaces a lookup that is still registered.
\<close>

theorem findNode_ids_cycle:
  "fst (handleAll C (constructor kb) evs)
     = map (\<lambda>k. k mod 2 ^ 32 + 1) [0..<length [target. CallFindNode target \<leftarrow> evs]]
   \<and> (\<forall>lookupId \<in> set (fst (handleAll C (constructor kb) evs)). 1 \<le> lookupId \<and> lookupId \<le> 2 ^ 32)
   \<and> (\<forall>i j. i < j \<and> j < length (fst (handleAll C (constructor kb) evs)) \<and> j - i < 2 ^ 32
         \<longrightarrow> fst (handleAll C (constructor kb) evs) ! i \<noteq> fst (handleAll C (constructor kb) evs) ! j)
   \<and> (length [target. CallFindNode target \<leftarrow> evs] < 2 ^ 32
         \<longrightarrow> nextLookupId (snd (handleAll C (constructor kb) evs))
               \<notin> fst ` set (activeLookups (snd (handleAll C (constructor kb) evs))))"
proof -
  let ?ids = "fst (handleAll C (constructor kb) evs)"
  let ?s = "snd (handleAll C (constructor kb) evs)"
  define n where "n = length [target. CallFindNode target \<leftarrow> evs]"
  have ids: "?ids = map (\<lambda>k. k mod 2 ^ 32 + 1) [0..<n]"
    and nxt: "nextLookupId ?s = n mod 2 ^ 32 + 1"
    and keys: "fst ` set (activeLookups ?s) \<subseteq> (\<lambda>k. k mod 2 ^ 32 + 1) ` {..<n}"
    unfolding n_def by (rule run_from_constructor)+
  have len: "length ?ids = n" unfolding n_def by (rule handleAll_calls)
  have bound: "k mod 2 ^ 32 + 1 \<le> 2 ^ 32" for k :: nat
    using mod_less_divisor [of "2 ^ 32" k] by simp
  have range: "\<forall>lookupId \<in> set ?ids. 1 \<le> lookupId \<and> lookupId \<le> 2 ^ 32"
  proof
    fix lookupId
    assume "lookupId \<in> set ?ids"
    then obtain k where "lookupId = k mod 2 ^ 32 + 1" unfolding ids by auto
    with bound [of k] show "1 \<le> lookupId \<and> lookupId \<le> 2 ^ 32" by simp
  qed
  have window: "\<forall>i j. i < j \<and> j < length ?ids \<and> j - i < 2 ^ 32 \<longrightarrow> ?ids ! i \<noteq> ?ids ! j"
  proof (intro allI impI)
    fix i j
    assume a: "i < j \<and> j < length ?ids \<and> j - i < 2 ^ 32"
    then have "i < n" and "j < n" using len by simp_all
    then have "map (\<lambda>k. k mod 2 ^ 32 + 1) [0..<n] ! i = i mod 2 ^ 32 + 1"
      and "map (\<lambda>k. k mod 2 ^ 32 + 1) [0..<n] ! j = j mod 2 ^ 32 + 1"
      by simp_all
    then have "?ids ! i = i mod 2 ^ 32 + 1" and "?ids ! j = j mod 2 ^ 32 + 1"
      unfolding ids by this+
    moreover from a have "i mod 2 ^ 32 + 1 \<noteq> j mod (2::nat) ^ 32 + 1"
      by (intro ids_window) simp_all
    ultimately show "?ids ! i \<noteq> ?ids ! j" by simp
  qed
  have free: "n < 2 ^ 32 \<longrightarrow> nextLookupId ?s \<notin> fst ` set (activeLookups ?s)"
  proof
    assume small: "n < 2 ^ 32"
    have "k mod 2 ^ 32 + 1 \<noteq> n + 1" if "k < n" for k
      using that small by simp
    then have "n + 1 \<notin> (\<lambda>k. k mod 2 ^ 32 + 1) ` {..<n}" by auto
    with keys have "n + 1 \<notin> fst ` set (activeLookups ?s)" by blast
    moreover from nxt small have "nextLookupId ?s = n + 1" by simp
    ultimately show "nextLookupId ?s \<notin> fst ` set (activeLookups ?s)" by simp
  qed
  show ?thesis
    unfolding n_def [symmetric]
    apply (intro conjI)
       apply (rule ids)
      apply (rule range)
     apply (rule window)
    apply (rule free)
    done
qed

theorem findNode_ids_cycle_witness:
  "[target. CallFindNode target \<leftarrow> mixedRun] = [''x'', ''y'', ''z'']
   \<and> fst (handleAll plainCollaborators (constructor []) mixedRun) = [1, 2, 3]
   \<and> map fst (activeLookups (snd (handleAll plainCollaborators (constructor []) mixedRun))) = [2, 3]
   \<and> nextLookupId (snd (handleAll plainCollaborators (constructor []) mixedRun)) = 4"
proof -
  have calls: "[target. CallFindNode target \<leftarrow> mixedRun] = [''x'', ''y'', ''z'']"
    by (simp add: mixedRun_def)
  have three: "[0..<3] = [0, 1, 2]" by (simp add: upt_conv_Cons)
  have state: "map fst (activeLookups (snd (handleAll plainCollaborators (constructor []) mixedRun)))
                 = [2, 3]
     \<and> nextLookupId (snd (handleAll plainCollaborators (constructor []) mixedRun)) = 4"
    by (simp add: mixedRun_def findNode_def onLookupFinished_def constructor_def Let_def)
  have "fst (handleAll plainCollaborators (constructor []) mixedRun)
          = map (\<lambda>k. k mod 2 ^ 32 + 1) [0..<length [''x'', ''y'', ''z'']]"
    by (rule conjunct1 [OF findNode_ids_cycle [of plainCollaborators "[]" mixedRun, unfolded calls]])
  then have "fst (handleAll plainCollaborators (constructor []) mixedRun) = [1, 2, 3]"
    by (simp add: three)
  with calls state show ?thesis by simp
qed

end
